theory Spec2Isabelle
  imports Main "HOL-Library.AList" "HOL-Library.Multiset" "HOL-Library.Word"
begin

section \<open>gnorm: the postgres schema model builder and the generation engine\<close>

text \<open>
  The development embeds the postgres driver of gnorm (\<^verbatim>\<open>parse\<close>, \<^verbatim>\<open>toDBColumn\<close>,
  \<^verbatim>\<open>queryPrimaryKeys\<close>, \<^verbatim>\<open>queryForeignKeys\<close>, \<^verbatim>\<open>queryIndexes\<close>, \<^verbatim>\<open>queryEnums\<close>,
  \<^verbatim>\<open>queryValues\<close>) as HOL functions. A Go function that returns \<^verbatim>\<open>(value, error)\<close> and may
  panic becomes a function into \<open>failure + value\<close>. Go strings are byte strings, HOL's
  \<open>string\<close>. Writes to the logger do not reach the returned value and are left out.
\<close>

subsection \<open>Errors and panics\<close>

text \<open>
  The error values of \<^verbatim>\<open>github.com/pkg/errors\<close> as the driver builds them: the cause
  reported by \<^verbatim>\<open>database/sql\<close>, wrapped by \<^verbatim>\<open>WithMessage\<close>, \<^verbatim>\<open>WithStack\<close> or \<^verbatim>\<open>Wrapf\<close>.
\<close>

datatype error =
    DriverError string
  | WithMessage error string
  | WithStack error
  | Wrapf error string

text \<open>The two run-time panics the driver's code can raise.\<close>

datatype panic = SliceBoundsOutOfRange | NilPointerDereference

datatype failure = Err error | Panic panic

subsection \<open>Rows of the introspection queries\<close>

text \<open>
  \<^verbatim>\<open>tables.Row\<close> and \<^verbatim>\<open>columns.Row\<close> are generated types; the driver reads the
  \<^verbatim>\<open>.String\<close> (or \<^verbatim>\<open>.Int64\<close>) of the fields below and nothing else.
\<close>

record table_row =
  t_TableSchema :: string
  t_TableName :: string

record column_row =
  c_TableSchema :: string
  c_TableName :: string
  c_ColumnName :: string
  c_IsNullable :: string
  c_ColumnDefault :: string
  c_CharacterMaximumLength :: "64 word"
  c_DataType :: string
  c_UdtName :: string

record PrimaryKey =
  pk_SchemaName :: string
  pk_TableName :: string
  pk_ColumnName :: string
  pk_Name :: string

record ForeignKey =
  fk_SchemaName :: string
  fk_TableName :: string
  fk_ColumnName :: string
  fk_Name :: string
  fk_UniqueConstraintPosition :: "64 word"
  fk_ForeignTableName :: string
  fk_ForeignColumnName :: string

record indexResult =
  ir_SchemaName :: string
  ir_TableName :: string
  ir_IndexName :: string
  ir_Columns :: "string list"

subsection \<open>The model the driver returns (package database)\<close>

record Column =
  Name :: string
  Type :: string
  IsArray :: bool
  Length :: "64 word"
  UserDefined :: bool
  Nullable :: bool
  HasDefault :: bool
  IsPrimaryKey :: bool
  IsForeignKey :: bool
  ForeignKey :: "ForeignKey option"
  Orig :: column_row

record EnumValue =
  ev_Name :: string
  ev_Value :: "64 word"

record Enum =
  en_Name :: string
  en_Values :: "EnumValue list"

record Index =
  ix_Name :: string
  ix_Columns :: "Column list"

record Table =
  tb_Name :: string
  tb_Columns :: "Column list"
  tb_Indexes :: "Index list"

record Schema =
  sc_Name :: string
  sc_Tables :: "Table list"
  sc_Enums :: "Enum list"

record Info =
  Schemas :: "Schema list"

subsection \<open>toDBColumn\<close>

text \<open>The slice expression \<^verbatim>\<open>s[n:]\<close>: it panics when \<open>n\<close> exceeds the length of \<open>s\<close>.\<close>

definition slice_from :: "string \<Rightarrow> nat \<Rightarrow> failure + string" where
  "slice_from s n =
     (if n \<le> length s then Inr (drop n s) else Inl (Panic SliceBoundsOutOfRange))"

definition toDBColumn :: "column_row \<Rightarrow> failure + Column" where
  "toDBColumn c =
     (let col = \<lparr> Name = c_ColumnName c,
                  Type = '''',
                  IsArray = False,
                  Length = c_CharacterMaximumLength c,
                  UserDefined = False,
                  Nullable = (c_IsNullable c = ''YES''),
                  HasDefault = (c_ColumnDefault c \<noteq> ''''),
                  IsPrimaryKey = False,
                  IsForeignKey = False,
                  ForeignKey = None,
                  Orig = c \<rparr>;
          typ = c_DataType c
      in if typ = ''ARRAY'' then
           (case slice_from (c_UdtName c) 1 of
              Inl p \<Rightarrow> Inl p
            | Inr t \<Rightarrow> Inr (col\<lparr>IsArray := True, Type := t\<rparr>))
         else if typ = ''USER-DEFINED'' then
           Inr (col\<lparr>UserDefined := True, Type := c_UdtName c\<rparr>)
         else Inr (col\<lparr>Type := typ\<rparr>))"

subsection \<open>The connection's answers\<close>

text \<open>
  What \<^verbatim>\<open>database/sql\<close> hands back for one \<^verbatim>\<open>db.Query\<close>: the outcome of
  \<^verbatim>\<open>rows.Scan\<close> for each row \<^verbatim>\<open>rows.Next\<close> yields, in order, and the value of
  \<^verbatim>\<open>rows.Err()\<close> once iteration has stopped.
\<close>

datatype 'r Rows = Rows (scans: "(error + 'r) list") (rows_Err: "error option")

text \<open>The four values \<^verbatim>\<open>queryIndexes\<close> scans from one row, before it post-processes them.\<close>

record index_scan =
  is_SchemaName :: string
  is_TableName :: string
  is_IndexName :: string
  is_cs :: string

text \<open>
  The answers of the connection to the queries of one run. \<^verbatim>\<open>tables.Query\<close> and
  \<^verbatim>\<open>columns.Query\<close> are generated functions returning \<^verbatim>\<open>([]*Row, error)\<close>; the other
  queries go through \<^verbatim>\<open>db.Query\<close>, whose \<^verbatim>\<open>*sql.Rows\<close> is nil when it returns an error.
  \<^verbatim>\<open>queryValues\<close> runs once per enum, with the schema and the enum's name.
\<close>

record db =
  sql_Open :: "error option"
  tables_Query :: "error + table_row list"
  columns_Query :: "error + column_row list"
  primaryKeys_Query :: "error + PrimaryKey Rows"
  foreignKeys_Query :: "error + ForeignKey Rows"
  enums_Query :: "error + (string \<times> string) Rows"
  values_Query :: "string \<Rightarrow> string \<Rightarrow> error + (string \<times> 64 word) Rows"
  indexes_Query :: "error + index_scan Rows"

subsection \<open>The query functions\<close>

text \<open>
  The loop \<^verbatim>\<open>for rows.Next() { if err := rows.Scan(...); err != nil { return nil,
  errors.WithMessage(err, msg) }; ret = append(ret, r) }\<close>.
\<close>

fun scan_loop :: "string \<Rightarrow> (error + 'r) list \<Rightarrow> failure + 'r list" where
  "scan_loop msg [] = Inr []"
| "scan_loop msg (Inl e # rs) = Inl (Err (WithMessage e msg))"
| "scan_loop msg (Inr r # rs) =
     (case scan_loop msg rs of Inl f \<Rightarrow> Inl f | Inr ret \<Rightarrow> Inr (r # ret))"

definition queryPrimaryKeys :: "db \<Rightarrow> failure + PrimaryKey list" where
  "queryPrimaryKeys d =
     (case primaryKeys_Query d of
        Inl e \<Rightarrow> Inl (Err (WithMessage e ''error querying keys''))
      | Inr rows \<Rightarrow> scan_loop ''error scanning key constraint'' (scans rows))"

definition queryForeignKeys :: "db \<Rightarrow> failure + ForeignKey list" where
  "queryForeignKeys d =
     (case foreignKeys_Query d of
        Inl e \<Rightarrow> Inl (Err (WithMessage e ''error querying foreign keys''))
      | Inr rows \<Rightarrow>
          (case scan_loop ''error scanning foreign key constraint'' (scans rows) of
             Inl f \<Rightarrow> Inl f
           | Inr ret \<Rightarrow>
               (case rows_Err rows of
                  Some e \<Rightarrow> Inl (Err (WithMessage e ''error reading foreign keys''))
                | None \<Rightarrow> Inr ret)))"

text \<open>\<^verbatim>\<open>strings.Split(s, sep)\<close> for a one-byte separator: never empty, \<open>[s]\<close> without a separator.\<close>

fun split :: "char \<Rightarrow> string \<Rightarrow> string list" where
  "split sep [] = [[]]"
| "split sep (c # cs) =
     (if c = sep then [] # split sep cs
      else (case split sep cs of [] \<Rightarrow> [[c]] | w # ws \<Rightarrow> (c # w) # ws))"

text \<open>
  The body of the loop of \<^verbatim>\<open>queryIndexes\<close> after a successful scan: the column list is
  split at the commas, and outside the \<^verbatim>\<open>public\<close> schema the table name loses its first
  \<^verbatim>\<open>len(r.SchemaName)+1\<close> bytes.
\<close>

definition index_row :: "index_scan \<Rightarrow> failure + indexResult" where
  "index_row s =
     (let r = \<lparr> ir_SchemaName = is_SchemaName s, ir_TableName = is_TableName s,
                ir_IndexName = is_IndexName s, ir_Columns = split CHR '','' (is_cs s) \<rparr>
      in if ir_SchemaName r \<noteq> ''public'' then
           (case slice_from (ir_TableName r) (length (ir_SchemaName r) + 1) of
              Inl p \<Rightarrow> Inl p
            | Inr t \<Rightarrow> Inr (r\<lparr>ir_TableName := t\<rparr>))
         else Inr r)"

fun indexes_loop :: "(error + index_scan) list \<Rightarrow> failure + indexResult list" where
  "indexes_loop [] = Inr []"
| "indexes_loop (Inl e # rs) = Inl (Err (WithMessage e ''error scanning index''))"
| "indexes_loop (Inr s # rs) =
     (case index_row s of
        Inl p \<Rightarrow> Inl p
      | Inr r \<Rightarrow> (case indexes_loop rs of Inl f \<Rightarrow> Inl f | Inr ret \<Rightarrow> Inr (r # ret)))"

text \<open>
  A deferred \<^verbatim>\<open>rows.Close()\<close> runs when the function returns. \<^verbatim>\<open>(*sql.Rows).Close\<close>
  locks a mutex of its receiver, so on the nil \<^verbatim>\<open>*sql.Rows\<close> it panics with a nil
  pointer dereference, and the panic replaces what the function was returning.
\<close>

definition deferred_Close :: "'r Rows option \<Rightarrow> failure + 'a \<Rightarrow> failure + 'a" where
  "deferred_Close rows ret =
     (case rows of None \<Rightarrow> Inl (Panic NilPointerDereference) | Some r \<Rightarrow> ret)"

text \<open>
  \<^verbatim>\<open>queryIndexes\<close> registers \<^verbatim>\<open>defer rows.Close()\<close> before it looks at the error of
  \<^verbatim>\<open>db.Query\<close>; the other query functions return on the error first.
\<close>

definition queryIndexes :: "db \<Rightarrow> failure + indexResult list" where
  "queryIndexes d =
     (let rows = (case indexes_Query d of Inl e \<Rightarrow> None | Inr r \<Rightarrow> Some r)
      in deferred_Close rows
           (case indexes_Query d of
              Inl e \<Rightarrow> Inl (Err (WithMessage e ''error querying indexes''))
            | Inr r \<Rightarrow> indexes_loop (scans r)))"

fun values_loop :: "string \<Rightarrow> (error + string \<times> 64 word) list \<Rightarrow> failure + EnumValue list" where
  "values_loop msg [] = Inr []"
| "values_loop msg (Inl e # rs) = Inl (Err (Wrapf e msg))"
| "values_loop msg (Inr (name, val) # rs) =
     (case values_loop msg rs of
        Inl f \<Rightarrow> Inl f
      | Inr vals \<Rightarrow> Inr (\<lparr> ev_Name = name, ev_Value = val \<rparr> # vals))"

definition queryValues :: "db \<Rightarrow> string \<Rightarrow> string \<Rightarrow> failure + EnumValue list" where
  "queryValues d schema enum =
     (case values_Query d schema enum of
        Inl e \<Rightarrow>
          Inl (Err (Wrapf e (''failed to query enum values for '' @ schema @ ''.'' @ enum)))
      | Inr rows \<Rightarrow>
          values_loop (''failed reading enum values for '' @ schema @ ''.'' @ enum) (scans rows))"

text \<open>A read of a Go map of slices: the nil (empty) slice for a key that is absent.\<close>

definition slice_at :: "('k \<rightharpoonup> 'v list) \<Rightarrow> 'k \<Rightarrow> 'v list" where
  "slice_at m k = (case m k of None \<Rightarrow> [] | Some xs \<Rightarrow> xs)"

fun enums_loop ::
  "db \<Rightarrow> (string \<rightharpoonup> Enum list) \<Rightarrow> (error + string \<times> string) list \<Rightarrow>
   failure + (string \<rightharpoonup> Enum list)" where
  "enums_loop d ret [] = Inr ret"
| "enums_loop d ret (Inl e # rs) =
     Inl (Err (WithMessage e ''error scanning enum name into string''))"
| "enums_loop d ret (Inr (schema, name) # rs) =
     (case queryValues d schema name of
        Inl f \<Rightarrow> Inl f
      | Inr vals \<Rightarrow>
          enums_loop d
            (ret(schema \<mapsto> slice_at ret schema @ [\<lparr> en_Name = name, en_Values = vals \<rparr>])) rs)"

definition queryEnums :: "db \<Rightarrow> failure + (string \<rightharpoonup> Enum list)" where
  "queryEnums d =
     (case enums_Query d of
        Inl e \<Rightarrow> Inl (Err (WithMessage e ''error querying enum names''))
      | Inr rows \<Rightarrow>
          (case enums_loop d Map.empty (scans rows) of
             Inl f \<Rightarrow> Inl f
           | Inr ret \<Rightarrow>
               (case rows_Err rows of
                  Some e \<Rightarrow> Inl (Err (WithMessage e ''error reading enum names''))
                | None \<Rightarrow> Inr ret)))"

subsection \<open>The passes of parse\<close>

text \<open>
  \<^verbatim>\<open>schemas\<close> is a \<^verbatim>\<open>map[string]map[string][]*database.Column\<close>. The outer map is only
  read and written by key; the inner maps are also ranged over, so they are association
  lists (\<open>map_of\<close> reads a key, \<open>AList.update\<close> assigns to it). The columns are reached
  through pointers in the source; no column is shared between two tables and every write
  to a column precedes the reads of the index pass, so a table's entry holds the
  columns themselves.
\<close>

type_synonym tables_map = "(string \<times> Column list) list"
type_synonym schemas_map = "string \<rightharpoonup> tables_map"
type_synonym index_map = "(string \<times> Column list) list"
type_synonym indexes_map = "string \<rightharpoonup> (string \<times> index_map) list"

definition init_schemas :: "string list \<Rightarrow> schemas_map" where
  "init_schemas schemaNames = foldl (\<lambda>schemas name. schemas(name \<mapsto> [])) Map.empty schemaNames"

definition seed_table :: "(string \<Rightarrow> string \<Rightarrow> bool) \<Rightarrow> schemas_map \<Rightarrow> table_row \<Rightarrow> schemas_map" where
  "seed_table filterTables schemas t =
     (if \<not> filterTables (t_TableSchema t) (t_TableName t) then schemas
      else (case schemas (t_TableSchema t) of
              None \<Rightarrow> schemas
            | Some s \<Rightarrow> schemas(t_TableSchema t \<mapsto> AList.update (t_TableName t) [] s)))"

definition add_column ::
  "(string \<Rightarrow> string \<Rightarrow> bool) \<Rightarrow> schemas_map \<Rightarrow> column_row \<Rightarrow> failure + schemas_map" where
  "add_column filterTables schemas c =
     (if \<not> filterTables (c_TableSchema c) (c_TableName c) then Inr schemas
      else (case schemas (c_TableSchema c) of
              None \<Rightarrow> Inr schemas
            | Some schema \<Rightarrow>
                (case map_of schema (c_TableName c) of
                   None \<Rightarrow> Inr schemas
                 | Some cols \<Rightarrow>
                     (case toDBColumn c of
                        Inl p \<Rightarrow> Inl p
                      | Inr col \<Rightarrow>
                          Inr (schemas(c_TableSchema c \<mapsto>
                                 AList.update (c_TableName c) (cols @ [col]) schema))))))"

fun add_columns ::
  "(string \<Rightarrow> string \<Rightarrow> bool) \<Rightarrow> schemas_map \<Rightarrow> column_row list \<Rightarrow> failure + schemas_map" where
  "add_columns filterTables schemas [] = Inr schemas"
| "add_columns filterTables schemas (c # cs) =
     (case add_column filterTables schemas c of
        Inl p \<Rightarrow> Inl p
      | Inr schemas' \<Rightarrow> add_columns filterTables schemas' cs)"

definition mark_primary_key ::
  "(string \<Rightarrow> string \<Rightarrow> bool) \<Rightarrow> schemas_map \<Rightarrow> PrimaryKey \<Rightarrow> schemas_map" where
  "mark_primary_key filterTables schemas pk =
     (if \<not> filterTables (pk_SchemaName pk) (pk_TableName pk) then schemas
      else (case schemas (pk_SchemaName pk) of
              None \<Rightarrow> schemas
            | Some schema \<Rightarrow>
                (case map_of schema (pk_TableName pk) of
                   None \<Rightarrow> schemas
                 | Some table \<Rightarrow>
                     schemas(pk_SchemaName pk \<mapsto>
                       AList.update (pk_TableName pk)
                         (map (\<lambda>col. if pk_ColumnName pk \<noteq> Name col then col
                                     else col\<lparr>IsPrimaryKey := True\<rparr>) table)
                         schema))))"

definition mark_foreign_key ::
  "(string \<Rightarrow> string \<Rightarrow> bool) \<Rightarrow> schemas_map \<Rightarrow> ForeignKey \<Rightarrow> schemas_map" where
  "mark_foreign_key filterTables schemas fk =
     (if \<not> filterTables (fk_SchemaName fk) (fk_TableName fk) then schemas
      else (case schemas (fk_SchemaName fk) of
              None \<Rightarrow> schemas
            | Some schema \<Rightarrow>
                (case map_of schema (fk_TableName fk) of
                   None \<Rightarrow> schemas
                 | Some table \<Rightarrow>
                     schemas(fk_SchemaName fk \<mapsto>
                       AList.update (fk_TableName fk)
                         (map (\<lambda>col. if fk_ColumnName fk \<noteq> Name col then col
                                     else col\<lparr>IsForeignKey := True, ForeignKey := Some fk\<rparr>) table)
                         schema))))"

text \<open>\<^verbatim>\<open>columnMap\<close>: the table's columns by name, a later column replacing an earlier one.\<close>

definition columnMap :: "Column list \<Rightarrow> (string \<rightharpoonup> Column)" where
  "columnMap table = foldl (\<lambda>m c. m(Name c \<mapsto> c)) Map.empty table"

text \<open>
  The inner loop over \<^verbatim>\<open>r.Columns\<close>: \<open>None\<close> stands for \<^verbatim>\<open>continue outer\<close> at the first
  name that \<^verbatim>\<open>columnMap\<close> does not hold.
\<close>

fun resolve_columns :: "(string \<rightharpoonup> Column) \<Rightarrow> Column list \<Rightarrow> string list \<Rightarrow> Column list option" where
  "resolve_columns m columns [] = Some columns"
| "resolve_columns m columns (c # cs) =
     (case m c of None \<Rightarrow> None | Some column \<Rightarrow> resolve_columns m (columns @ [column]) cs)"

definition add_index ::
  "(string \<Rightarrow> string \<Rightarrow> bool) \<Rightarrow> schemas_map \<Rightarrow> indexes_map \<Rightarrow> indexResult \<Rightarrow> indexes_map" where
  "add_index filterTables schemas indexes r =
     (if \<not> filterTables (ir_SchemaName r) (ir_TableName r) then indexes
      else (case schemas (ir_SchemaName r) of
              None \<Rightarrow> indexes
            | Some schema \<Rightarrow>
                (case map_of schema (ir_TableName r) of
                   None \<Rightarrow> indexes
                 | Some table \<Rightarrow>
                     (case resolve_columns (columnMap table) [] (ir_Columns r) of
                        None \<Rightarrow> indexes
                      | Some columns \<Rightarrow>
                          (let schemaIndex = slice_at indexes (ir_SchemaName r);
                               tableIndex = slice_at (map_of schemaIndex) (ir_TableName r)
                           in indexes(ir_SchemaName r \<mapsto>
                                AList.update (ir_TableName r)
                                  (AList.update (ir_IndexName r)
                                     (slice_at (map_of tableIndex) (ir_IndexName r) @ columns)
                                     tableIndex)
                                  schemaIndex))))))"

subsection \<open>Ranging over a Go map\<close>

text \<open>
  The order in which \<^verbatim>\<open>range\<close> visits the keys of a map is not fixed by Go and varies
  from one execution of the statement to the next. The model takes it as a parameter:
  for each \<^verbatim>\<open>range\<close> statement over a map that \<^verbatim>\<open>parse\<close> executes (the statement and
  the iteration of the enclosing loops it runs in), a function from the keys of the map
  to the order they are visited in. \<open>valid_order\<close> says that every key is visited once.
\<close>

datatype range_site =
    RangeTables nat
  | RangeIndexes nat
  | RangeIndex nat string
  | RangeDbtables nat

type_synonym map_order = "range_site \<Rightarrow> string list \<Rightarrow> string list"

definition valid_order :: "map_order \<Rightarrow> bool" where
  "valid_order ord = (\<forall>site keys. mset (ord site keys) = mset keys)"

definition range_map :: "(string list \<Rightarrow> string list) \<Rightarrow> (string \<times> 'v) list \<Rightarrow> (string \<times> 'v) list" where
  "range_map visit m =
     List.map_filter (\<lambda>k. map_option (Pair k) (map_of m k)) (visit (map fst m))"

subsection \<open>Building the result\<close>

text \<open>
  The body of the last loop of \<^verbatim>\<open>parse\<close> for the schema at position \<open>i\<close> of
  \<^verbatim>\<open>schemaNames\<close>: \<^verbatim>\<open>dbtables\<close> gets a table for each entry of \<^verbatim>\<open>tables\<close>, the tables
  named in \<^verbatim>\<open>indexes[schema]\<close> get their indexes (a table that \<^verbatim>\<open>dbtables\<close> does not hold
  would be a nil pointer there), and the tables of \<^verbatim>\<open>dbtables\<close> are appended to
  \<^verbatim>\<open>s.Tables\<close>.
\<close>

definition make_dbtables :: "(string list \<Rightarrow> string list) \<Rightarrow> tables_map \<Rightarrow> (string \<times> Table) list" where
  "make_dbtables visit tables =
     foldl (\<lambda>dbtables (tname, columns).
              AList.update tname \<lparr> tb_Name = tname, tb_Columns = columns, tb_Indexes = [] \<rparr> dbtables)
       [] (range_map visit tables)"

definition make_indexes :: "(string list \<Rightarrow> string list) \<Rightarrow> index_map \<Rightarrow> Index list" where
  "make_indexes visit index =
     foldl (\<lambda>ixs (iname, columns). ixs @ [\<lparr> ix_Name = iname, ix_Columns = columns \<rparr>])
       [] (range_map visit index)"

fun set_indexes ::
  "map_order \<Rightarrow> nat \<Rightarrow> (string \<times> Table) list \<Rightarrow> (string \<times> index_map) list \<Rightarrow>
   failure + (string \<times> Table) list" where
  "set_indexes ord i dbtables [] = Inr dbtables"
| "set_indexes ord i dbtables ((tname, index) # rest) =
     (case map_of dbtables tname of
        None \<Rightarrow> Inl (Panic NilPointerDereference)
      | Some table \<Rightarrow>
          set_indexes ord i
            (AList.update tname
               (table\<lparr>tb_Indexes := make_indexes (ord (RangeIndex i tname)) index\<rparr>) dbtables)
            rest)"

definition schema_tables ::
  "map_order \<Rightarrow> nat \<Rightarrow> tables_map \<Rightarrow> (string \<times> index_map) list \<Rightarrow> failure + Table list" where
  "schema_tables ord i tables schemaIndex =
     (case set_indexes ord i (make_dbtables (ord (RangeTables i)) tables)
             (range_map (ord (RangeIndexes i)) schemaIndex) of
        Inl p \<Rightarrow> Inl p
      | Inr dbtables \<Rightarrow>
          Inr (foldl (\<lambda>ts (tname, table). ts @ [table]) []
                 (range_map (ord (RangeDbtables i)) dbtables)))"

fun build_schemas ::
  "map_order \<Rightarrow> schemas_map \<Rightarrow> (string \<rightharpoonup> Enum list) \<Rightarrow> indexes_map \<Rightarrow> nat \<Rightarrow> string list \<Rightarrow>
   failure + Schema list" where
  "build_schemas ord schemas enums indexes i [] = Inr []"
| "build_schemas ord schemas enums indexes i (schema # rest) =
     (case schema_tables ord i (slice_at schemas schema) (slice_at indexes schema) of
        Inl p \<Rightarrow> Inl p
      | Inr ts \<Rightarrow>
          (case build_schemas ord schemas enums indexes (Suc i) rest of
             Inl p \<Rightarrow> Inl p
           | Inr ss \<Rightarrow>
               Inr (\<lparr> sc_Name = schema, sc_Tables = ts, sc_Enums = slice_at enums schema \<rparr> # ss)))"

subsection \<open>parse\<close>

text \<open>
  \<^verbatim>\<open>parse\<close>, with the order of its map iterations and the connection's answers as
  parameters. The statements run in the order of the source, so the first query error
  or panic is what the function ends with.
\<close>

definition parse ::
  "map_order \<Rightarrow> db \<Rightarrow> string list \<Rightarrow> (string \<Rightarrow> string \<Rightarrow> bool) \<Rightarrow> failure + Info" where
  "parse ord d schemaNames filterTables =
     (case sql_Open d of
        Some e \<Rightarrow> Inl (Err (WithStack e))
      | None \<Rightarrow>
     (case tables_Query d of
        Inl e \<Rightarrow> Inl (Err e)
      | Inr tables \<Rightarrow>
     (case columns_Query d of
        Inl e \<Rightarrow> Inl (Err e)
      | Inr columns \<Rightarrow>
     (case add_columns filterTables
             (foldl (seed_table filterTables) (init_schemas schemaNames) tables) columns of
        Inl p \<Rightarrow> Inl p
      | Inr schemas1 \<Rightarrow>
     (case queryPrimaryKeys d of
        Inl f \<Rightarrow> Inl f
      | Inr primaryKeys \<Rightarrow>
     (let schemas2 = foldl (mark_primary_key filterTables) schemas1 primaryKeys in
     (case queryForeignKeys d of
        Inl f \<Rightarrow> Inl f
      | Inr foreignKeys \<Rightarrow>
     (let schemas = foldl (mark_foreign_key filterTables) schemas2 foreignKeys in
     (case queryEnums d of
        Inl f \<Rightarrow> Inl f
      | Inr enums \<Rightarrow>
     (case queryIndexes d of
        Inl f \<Rightarrow> Inl f
      | Inr indexResults \<Rightarrow>
     (let indexes = foldl (add_index filterTables schemas) Map.empty indexResults in
     (case build_schemas ord schemas enums indexes 0 schemaNames of
        Inl p \<Rightarrow> Inl p
      | Inr ss \<Rightarrow> Inr \<lparr> Schemas = ss \<rparr>))))))))))))"

subsection \<open>The generation engine (package run)\<close>

text \<open>
  The file system as far as \<^verbatim>\<open>genFile\<close> is concerned: the content of the file at each
  path, if there is one. A template is the function from the data it is executed on to
  the rendered text, or to the error of \<^verbatim>\<open>Execute\<close>.
\<close>

type_synonym filesystem = "string \<rightharpoonup> string"
type_synonym 'a template = "'a \<Rightarrow> error + string"

text \<open>
  Modelled from the spec: \<^verbatim>\<open>genFile\<close> of package run is not among the sources (its test
  \<^verbatim>\<open>TestAtomicGenerate\<close> is, calling \<^verbatim>\<open>genFile(env, filename, contents, target, postrun)\<close>).
  Section 4.4 of the spec: the contents template is rendered into an in-memory buffer
  and on failure the destination file is not touched; only after the render succeeds is
  the buffer written to the destination path, replacing any existing file wholesale;
  after a successful write the post-run command, if one is configured, is run, and its
  failure is reported without undoing the write.
\<close>

definition genFile ::
  "filesystem \<Rightarrow> string \<Rightarrow> 'a \<Rightarrow> 'a template \<Rightarrow> (string \<Rightarrow> error option) option \<Rightarrow>
   error option \<times> filesystem" where
  "genFile fs filename contents target_Contents postrun =
     (case target_Contents contents of
        Inl e \<Rightarrow> (Some e, fs)
      | Inr buf \<Rightarrow>
          (let fs' = fs(filename \<mapsto> buf)
           in (case postrun of
                 None \<Rightarrow> (None, fs')
               | Some run \<Rightarrow> (run filename, fs'))))"

subsection \<open>The tables handed to the templates (package data)\<close>

text \<open>
  \<^verbatim>\<open>data.Column\<close> and \<^verbatim>\<open>data.Table\<close> as package data declares them, without the
  back-references and the foreign-key maps.
\<close>

record data_Column =
  dc_Name :: string
  dc_DBName :: string
  dc_Type :: string
  dc_DBType :: string
  dc_IsArray :: bool
  dc_Length :: "64 word"
  dc_UserDefined :: bool
  dc_Nullable :: bool
  dc_HasDefault :: bool
  dc_IsPrimaryKey :: bool
  dc_IsForeignKey :: bool

record data_Table =
  dt_Name :: string
  dt_DBName :: string
  dt_Columns :: "data_Column list"
  dt_PrimaryKeys :: "data_Column list"

text \<open>
  Modelled from the spec: the conversion of the driver's tables into \<^verbatim>\<open>data.Table\<close>
  (package run) is not among the sources. The spec (sections 3 and 4.2) has each column
  carry a converted name and the original database name, a normalized type name and the
  original database type, and the flags of the driver's column; the table's ordered
  PrimaryKeys list is built from the columns whose primary-key flag is set and is derived,
  not independently settable. The conversions of names and types are parameters.
\<close>

definition makeColumn :: "(string \<Rightarrow> string) \<Rightarrow> (string \<Rightarrow> bool \<Rightarrow> string) \<Rightarrow> Column \<Rightarrow> data_Column" where
  "makeColumn convertName convertType c =
     \<lparr> dc_Name = convertName (Name c), dc_DBName = Name c,
       dc_Type = convertType (Type c) (Nullable c), dc_DBType = Type c,
       dc_IsArray = IsArray c, dc_Length = Length c, dc_UserDefined = UserDefined c,
       dc_Nullable = Nullable c, dc_HasDefault = HasDefault c,
       dc_IsPrimaryKey = IsPrimaryKey c, dc_IsForeignKey = IsForeignKey c \<rparr>"

definition makeTable :: "(string \<Rightarrow> string) \<Rightarrow> (string \<Rightarrow> bool \<Rightarrow> string) \<Rightarrow> Table \<Rightarrow> data_Table" where
  "makeTable convertName convertType t =
     (let columns = map (makeColumn convertName convertType) (tb_Columns t)
      in \<lparr> dt_Name = convertName (tb_Name t), dt_DBName = tb_Name t,
           dt_Columns = columns, dt_PrimaryKeys = filter dc_IsPrimaryKey columns \<rparr>)"

subsection \<open>A small database\<close>

text \<open>
  The rows of a schema \<^verbatim>\<open>public\<close> with two tables, \<^verbatim>\<open>a(id)\<close> and \<^verbatim>\<open>b(id, aid)\<close>, used
  to run the functions on concrete inputs.
\<close>

definition text_column :: "string \<Rightarrow> string \<Rightarrow> string \<Rightarrow> column_row" where
  "text_column s t c =
     \<lparr> c_TableSchema = s, c_TableName = t, c_ColumnName = c, c_IsNullable = ''NO'',
       c_ColumnDefault = '''', c_CharacterMaximumLength = 0, c_DataType = ''text'',
       c_UdtName = ''text'' \<rparr>"

definition text_Column :: "string \<Rightarrow> string \<Rightarrow> string \<Rightarrow> Column" where
  "text_Column s t c =
     \<lparr> Name = c, Type = ''text'', IsArray = False, Length = 0, UserDefined = False,
       Nullable = False, HasDefault = False, IsPrimaryKey = False, IsForeignKey = False,
       ForeignKey = None, Orig = text_column s t c \<rparr>"

definition no_rows :: "'r Rows" where
  "no_rows = Rows [] None"

definition sample_db :: db where
  "sample_db =
     \<lparr> sql_Open = None,
       tables_Query = Inr [\<lparr> t_TableSchema = ''public'', t_TableName = ''a'' \<rparr>,
                           \<lparr> t_TableSchema = ''public'', t_TableName = ''b'' \<rparr>],
       columns_Query = Inr [text_column ''public'' ''a'' ''id'',
                            text_column ''public'' ''b'' ''id'',
                            text_column ''public'' ''b'' ''aid''],
       primaryKeys_Query = Inr no_rows,
       foreignKeys_Query = Inr no_rows,
       enums_Query = Inr no_rows,
       values_Query = (\<lambda>schema enum. Inr no_rows),
       indexes_Query = Inr no_rows \<rparr>"

definition in_order :: map_order where
  "in_order site keys = keys"

definition dbtables_reversed :: map_order where
  "dbtables_reversed site keys = (case site of RangeDbtables i \<Rightarrow> rev keys | _ \<Rightarrow> keys)"

definition all_tables :: "string \<Rightarrow> string \<Rightarrow> bool" where
  "all_tables schema table = True"

definition a_fk :: ForeignKey where
  "a_fk = \<lparr> fk_SchemaName = ''public'', fk_TableName = ''b'', fk_ColumnName = ''aid'',
            fk_Name = ''b_aid_fkey'', fk_UniqueConstraintPosition = 1,
            fk_ForeignTableName = ''a'', fk_ForeignColumnName = ''id'' \<rparr>"

subsection \<open>Notions used in the statements and proofs\<close>

text \<open>The pair \<open>(s, t)\<close> is present in \<^verbatim>\<open>schemas\<close>: \<^verbatim>\<open>schemas[s]\<close> exists and holds the key \<open>t\<close>.\<close>

definition has_table :: "schemas_map \<Rightarrow> string \<Rightarrow> string \<Rightarrow> bool" where
  "has_table schemas s t =
     (case schemas s of None \<Rightarrow> False | Some schema \<Rightarrow> map_of schema t \<noteq> None)"

text \<open>\<^verbatim>\<open>schemas\<close> after the loop over the table rows: the seeded model.\<close>

definition seed_schemas :: "(string \<Rightarrow> string \<Rightarrow> bool) \<Rightarrow> string list \<Rightarrow> table_row list \<Rightarrow> schemas_map" where
  "seed_schemas filterTables schemaNames tables =
     foldl (seed_table filterTables) (init_schemas schemaNames) tables"

text \<open>
  The two tests at the head of every row loop of \<^verbatim>\<open>parse\<close>: a row for \<open>(s, t)\<close> is passed
  over when the filter rejects the pair or \<^verbatim>\<open>schemas\<close> does not hold it.
\<close>

definition skipped :: "(string \<Rightarrow> string \<Rightarrow> bool) \<Rightarrow> schemas_map \<Rightarrow> string \<Rightarrow> string \<Rightarrow> bool" where
  "skipped filterTables schemas s t = (\<not> filterTables s t \<or> \<not> has_table schemas s t)"

text \<open>\<^verbatim>\<open>schemas\<close> as \<^verbatim>\<open>parse\<close> has it after the loop over the column rows.\<close>

definition load_columns :: "db \<Rightarrow> string list \<Rightarrow> (string \<Rightarrow> string \<Rightarrow> bool) \<Rightarrow> failure + schemas_map" where
  "load_columns d schemaNames filterTables =
     (case sql_Open d of
        Some e \<Rightarrow> Inl (Err (WithStack e))
      | None \<Rightarrow>
          (case tables_Query d of
             Inl e \<Rightarrow> Inl (Err e)
           | Inr tables \<Rightarrow>
               (case columns_Query d of
                  Inl e \<Rightarrow> Inl (Err e)
                | Inr columns \<Rightarrow>
                    add_columns filterTables (seed_schemas filterTables schemaNames tables) columns)))"

text \<open>\<^verbatim>\<open>schemas\<close> as \<^verbatim>\<open>parse\<close> has it when the index pass starts, the keys marked.\<close>

definition load_schemas :: "db \<Rightarrow> string list \<Rightarrow> (string \<Rightarrow> string \<Rightarrow> bool) \<Rightarrow> failure + schemas_map" where
  "load_schemas d schemaNames filterTables =
     (case load_columns d schemaNames filterTables of
        Inl p \<Rightarrow> Inl p
      | Inr schemas1 \<Rightarrow>
          (case queryPrimaryKeys d of
             Inl p \<Rightarrow> Inl p
           | Inr primaryKeys \<Rightarrow>
               (case queryForeignKeys d of
                  Inl p \<Rightarrow> Inl p
                | Inr foreignKeys \<Rightarrow>
                    Inr (foldl (mark_foreign_key filterTables)
                           (foldl (mark_primary_key filterTables) schemas1 primaryKeys)
                           foreignKeys))))"

text \<open>Every table of \<^verbatim>\<open>dbtables\<close> is filed under its name and carries the columns of \<^verbatim>\<open>tables\<close>.\<close>

definition dbtables_of :: "tables_map \<Rightarrow> (string \<times> Table) list \<Rightarrow> bool" where
  "dbtables_of tables dbtables =
     (\<forall>k tb. map_of dbtables k = Some tb \<longrightarrow>
        tb_Name tb = k \<and> map_of tables k = Some (tb_Columns tb))"

text \<open>
  A row for \<open>(s, t)\<close> is passed over by every row loop of the run: the filter rejects the
  pair or the seeded model does not hold it (or the table query failed, and no row loop
  runs).
\<close>

definition row_skipped :: "db \<Rightarrow> string list \<Rightarrow> (string \<Rightarrow> string \<Rightarrow> bool) \<Rightarrow> string \<Rightarrow> string \<Rightarrow> bool" where
  "row_skipped d schemaNames filterTables s t =
     (case tables_Query d of
        Inl e \<Rightarrow> True
      | Inr tables \<Rightarrow> skipped filterTables (seed_schemas filterTables schemaNames tables) s t)"

text \<open>
  The small database with a column row and a primary-key row for a table \<^verbatim>\<open>public.c\<close>
  that the table query did not return.
\<close>

definition c_pk :: PrimaryKey where
  "c_pk = \<lparr> pk_SchemaName = ''public'', pk_TableName = ''c'', pk_ColumnName = ''id'',
            pk_Name = ''c_pkey'' \<rparr>"

definition stray_db :: db where
  "stray_db =
     sample_db
       \<lparr> columns_Query :=
           Inr ([text_column ''public'' ''a'' ''id''] @
                text_column ''public'' ''c'' ''id'' #
                [text_column ''public'' ''b'' ''id'', text_column ''public'' ''b'' ''aid'']),
         primaryKeys_Query := Inr (Rows ([] @ Inr c_pk # []) None) \<rparr>"

text \<open>The filter of a run with \<^verbatim>\<open>IncludeTables = {"public": ["b"]}\<close>.\<close>

definition only_b :: "string \<Rightarrow> string \<Rightarrow> bool" where
  "only_b schema table = (schema = ''public'' \<and> table = ''b'')"

text \<open>Every column of every table of \<^verbatim>\<open>schemas\<close> satisfies \<open>P\<close>.\<close>

definition all_columns :: "(string \<Rightarrow> string \<Rightarrow> Column \<Rightarrow> bool) \<Rightarrow> schemas_map \<Rightarrow> bool" where
  "all_columns P schemas =
     (\<forall>s tables t cols c. schemas s = Some tables \<longrightarrow> map_of tables t = Some cols \<longrightarrow>
        c \<in> set cols \<longrightarrow> P s t c)"

text \<open>
  The small database with an index on \<^verbatim>\<open>a\<close> that lists the column \<^verbatim>\<open>id\<close> twice, with
  an index on \<^verbatim>\<open>a\<close> that lists a column \<^verbatim>\<open>nope\<close> the table does not have, with the
  foreign key of \<^verbatim>\<open>b.aid\<close>, and with the primary key of \<^verbatim>\<open>a\<close>.
\<close>

definition dup_index_db :: db where
  "dup_index_db =
     sample_db
       \<lparr> indexes_Query :=
           Inr (Rows [Inr \<lparr> is_SchemaName = ''public'', is_TableName = ''a'',
                             is_IndexName = ''a_idx'', is_cs = ''id,id'' \<rparr>] None) \<rparr>"

definition unknown_column_scan :: index_scan where
  "unknown_column_scan =
     \<lparr> is_SchemaName = ''public'', is_TableName = ''a'', is_IndexName = ''a_idx'',
       is_cs = ''id,nope'' \<rparr>"

definition bad_index_db :: db where
  "bad_index_db =
     sample_db \<lparr> indexes_Query := Inr (Rows ([] @ Inr unknown_column_scan # []) None) \<rparr>"

definition fk_db :: db where
  "fk_db = sample_db \<lparr> foreignKeys_Query := Inr (Rows [Inr a_fk] None) \<rparr>"

definition a_pk :: PrimaryKey where
  "a_pk = \<lparr> pk_SchemaName = ''public'', pk_TableName = ''a'', pk_ColumnName = ''id'',
            pk_Name = ''a_pkey'' \<rparr>"

definition pk_db :: db where
  "pk_db = sample_db \<lparr> primaryKeys_Query := Inr (Rows [Inr a_pk] None) \<rparr>"

text \<open>
  Rows as \<^verbatim>\<open>queryIndexes\<close> scans them: one of a schema \<^verbatim>\<open>app\<close> with the table name
  qualified, one of \<^verbatim>\<open>public\<close>, and one of \<^verbatim>\<open>app\<close> with the bare table name \<^verbatim>\<open>t\<close>; and
  the small database with that last row as its only index row.
\<close>

definition app_users_scan :: index_scan where
  "app_users_scan = \<lparr> is_SchemaName = ''app'', is_TableName = ''app.users'',
                       is_IndexName = ''users_pkey'', is_cs = ''id,email'' \<rparr>"

definition public_a_scan :: index_scan where
  "public_a_scan = \<lparr> is_SchemaName = ''public'', is_TableName = ''a'',
                      is_IndexName = ''a_idx'', is_cs = ''id'' \<rparr>"

definition app_t_scan :: index_scan where
  "app_t_scan = \<lparr> is_SchemaName = ''app'', is_TableName = ''t'',
                   is_IndexName = ''t_pkey'', is_cs = ''id'' \<rparr>"

definition short_name_db :: db where
  "short_name_db = sample_db \<lparr> indexes_Query := Inr (Rows [Inr app_t_scan] None) \<rparr>"

text \<open>
  What two models have in common when they differ only in the order of the tables of a
  schema and of the indexes of a table: per schema, in order, its name, its enums and
  the multiset of its tables, each table with its name, its columns in order and the
  multiset of its indexes (each index with its columns in order).
\<close>

definition table_view :: "Table \<Rightarrow> string \<times> Column list \<times> Index multiset" where
  "table_view t = (tb_Name t, tb_Columns t, mset (tb_Indexes t))"

definition schema_view :: "Schema \<Rightarrow> string \<times> Enum list \<times> (string \<times> Column list \<times> Index multiset) multiset" where
  "schema_view s = (sc_Name s, sc_Enums s, image_mset table_view (mset (sc_Tables s)))"

definition info_view :: "Info \<Rightarrow> (string \<times> Enum list \<times> (string \<times> Column list \<times> Index multiset) multiset) list" where
  "info_view m = map schema_view (Schemas m)"

text \<open>The indexes of an index map and the tables of a schema, whatever the order of iteration.\<close>

definition canon_indexes :: "index_map \<Rightarrow> Index multiset" where
  "canon_indexes index =
     image_mset (\<lambda>n. \<lparr> ix_Name = n, ix_Columns = the (map_of index n) \<rparr>) (mset (map fst index))"

definition canon_tables ::
  "tables_map \<Rightarrow> (string \<times> index_map) list \<Rightarrow> (string \<times> Column list \<times> Index multiset) multiset" where
  "canon_tables tables schemaIndex =
     image_mset
       (\<lambda>k. (k, the (map_of tables k),
               (case map_of schemaIndex k of None \<Rightarrow> {#} | Some index \<Rightarrow> canon_indexes index)))
       (mset_set (fst ` set tables))"

section \<open>Properties\<close>

subsection \<open>toDBColumn on array columns\<close>

text \<open>
  C9. For a column row whose DataType is \<^verbatim>\<open>ARRAY\<close>, \<^verbatim>\<open>toDBColumn\<close> takes the row's
  UdtName without its first character as the type. With an empty UdtName the slice is
  out of range and the function panics; with a non-empty UdtName it returns a column
  that has IsArray set and the stripped name as its type. So the function is total on
  array rows exactly under the precondition that UdtName is non-empty.
\<close>

theorem toDBColumn_array:
  assumes "c_DataType c = ''ARRAY''"
  shows "(c_UdtName c = [] \<longrightarrow> toDBColumn c = Inl (Panic SliceBoundsOutOfRange)) \<and>
         (c_UdtName c \<noteq> [] \<longrightarrow>
            (\<exists>col. toDBColumn c = Inr col \<and> IsArray col \<and> Type col = tl (c_UdtName c) \<and>
                   Name col = c_ColumnName c \<and> \<not> UserDefined col))"
proof (cases "c_UdtName c")
  case Nil
  with assms show ?thesis
    by (simp add: toDBColumn_def slice_from_def)
next
  case (Cons a u)
  with assms show ?thesis
    by (simp add: toDBColumn_def slice_from_def drop_Suc)
qed

theorem toDBColumn_array_witness:
  "toDBColumn \<lparr> c_TableSchema = ''public'', c_TableName = ''users'', c_ColumnName = ''tags'',
                 c_IsNullable = ''YES'', c_ColumnDefault = '''', c_CharacterMaximumLength = 0,
                 c_DataType = ''ARRAY'', c_UdtName = ''_text'' \<rparr>
     \<noteq> Inl (Panic SliceBoundsOutOfRange) \<and>
   toDBColumn \<lparr> c_TableSchema = ''public'', c_TableName = ''users'', c_ColumnName = ''tags'',
                 c_IsNullable = ''YES'', c_ColumnDefault = '''', c_CharacterMaximumLength = 0,
                 c_DataType = ''ARRAY'', c_UdtName = '''' \<rparr>
     = Inl (Panic SliceBoundsOutOfRange)"
  using toDBColumn_array [of "\<lparr> c_TableSchema = ''public'', c_TableName = ''users'',
                 c_ColumnName = ''tags'', c_IsNullable = ''YES'', c_ColumnDefault = '''',
                 c_CharacterMaximumLength = 0, c_DataType = ''ARRAY'', c_UdtName = ''_text'' \<rparr>"]
        toDBColumn_array [of "\<lparr> c_TableSchema = ''public'', c_TableName = ''users'',
                 c_ColumnName = ''tags'', c_IsNullable = ''YES'', c_ColumnDefault = '''',
                 c_CharacterMaximumLength = 0, c_DataType = ''ARRAY'', c_UdtName = '''' \<rparr>"]
  by auto

subsection \<open>Atomic generation\<close>

text \<open>
  C1. When rendering the contents template fails, \<^verbatim>\<open>genFile\<close> returns the error and the
  file system is as it was: a destination file with content \<open>C\<close> still has exactly the
  content \<open>C\<close>, and where there was no file none is created.
\<close>

theorem genFile_atomic:
  assumes "target_Contents contents = Inl e"
  shows "fst (genFile fs filename contents target_Contents postrun) = Some e \<and>
         snd (genFile fs filename contents target_Contents postrun) = fs \<and>
         (\<forall>C. fs filename = Some C \<longrightarrow>
              snd (genFile fs filename contents target_Contents postrun) filename = Some C) \<and>
         (fs filename = None \<longrightarrow>
              snd (genFile fs filename contents target_Contents postrun) filename = None)"
  using assms by (simp add: genFile_def)

theorem genFile_atomic_witness:
  "snd (genFile [''testfile.out'' \<mapsto> ''goodbye world''] ''testfile.out'' ''hello world''
          (\<lambda>contents. Inl (DriverError ''no field Name'')) None) ''testfile.out''
     = Some ''goodbye world'' \<and>
   snd (genFile Map.empty ''testfile.out'' ''hello world''
          (\<lambda>contents. Inl (DriverError ''no field Name'')) None) ''testfile.out''
     = None \<and>
   fst (genFile Map.empty ''testfile.out'' ''hello world''
          (\<lambda>contents. Inl (DriverError ''no field Name'')) None)
     = Some (DriverError ''no field Name'')"
  using genFile_atomic [of "\<lambda>contents. Inl (DriverError ''no field Name'')"
          "''hello world''" "DriverError ''no field Name''"
          "[''testfile.out'' \<mapsto> ''goodbye world'']" "''testfile.out''" None]
        genFile_atomic [of "\<lambda>contents. Inl (DriverError ''no field Name'')"
          "''hello world''" "DriverError ''no field Name''"
          "Map.empty" "''testfile.out''" None]
  by simp

subsection \<open>A failing index query\<close>

text \<open>
  C7. When \<^verbatim>\<open>db.Query\<close> fails in \<^verbatim>\<open>queryIndexes\<close>, the deferred \<^verbatim>\<open>rows.Close()\<close> runs on
  the nil rows: \<^verbatim>\<open>queryIndexes\<close>, and \<^verbatim>\<open>parse\<close> with it, ends in a nil pointer
  dereference and not in the error of the query.
\<close>

theorem parse_index_query_error_panics:
  "parse in_order (sample_db\<lparr>indexes_Query := Inl (DriverError ''connection reset'')\<rparr>)
     [''public''] all_tables = Inl (Panic NilPointerDereference)"
  by code_simp

subsection \<open>Rows that a pass skips\<close>

lemma has_table_seed_table:
  "has_table (seed_table f st r) s t \<longleftrightarrow>
     has_table st s t \<or>
     (f s t \<and> st s \<noteq> None \<and> s = t_TableSchema r \<and> t = t_TableName r)"
  by (auto simp: has_table_def seed_table_def update_conv' split: option.splits)

lemma has_table_add_column:
  "add_column f st c = Inr st' \<Longrightarrow> has_table st' s t = has_table st s t"
  by (auto simp: has_table_def add_column_def update_conv' split: option.splits if_splits sum.splits)

lemma has_table_mark_primary_key:
  "has_table (mark_primary_key f st pk) s t = has_table st s t"
  by (auto simp: has_table_def mark_primary_key_def update_conv' split: option.splits)

lemma has_table_mark_foreign_key:
  "has_table (mark_foreign_key f st fk) s t = has_table st s t"
  by (auto simp: has_table_def mark_foreign_key_def update_conv' split: option.splits)

lemma has_table_add_columns:
  "add_columns f st cs = Inr st' \<Longrightarrow> has_table st' s t = has_table st s t"
  by (induction cs arbitrary: st) (auto split: sum.splits dest: has_table_add_column)

lemma has_table_mark_primary_keys:
  "has_table (foldl (mark_primary_key f) st pks) s t = has_table st s t"
  by (induction pks arbitrary: st) (simp_all add: has_table_mark_primary_key)

lemma has_table_mark_foreign_keys:
  "has_table (foldl (mark_foreign_key f) st fks) s t = has_table st s t"
  by (induction fks arbitrary: st) (simp_all add: has_table_mark_foreign_key)

lemma add_column_skipped:
  "skipped f st (c_TableSchema c) (c_TableName c) \<Longrightarrow> add_column f st c = Inr st"
  by (auto simp: skipped_def has_table_def add_column_def split: option.splits)

lemma mark_primary_key_skipped:
  "skipped f st (pk_SchemaName pk) (pk_TableName pk) \<Longrightarrow> mark_primary_key f st pk = st"
  by (auto simp: skipped_def has_table_def mark_primary_key_def split: option.splits)

lemma mark_foreign_key_skipped:
  "skipped f st (fk_SchemaName fk) (fk_TableName fk) \<Longrightarrow> mark_foreign_key f st fk = st"
  by (auto simp: skipped_def has_table_def mark_foreign_key_def split: option.splits)

lemma add_index_skipped:
  "skipped f st (ir_SchemaName r) (ir_TableName r) \<Longrightarrow> add_index f st ix r = ix"
  by (auto simp: skipped_def has_table_def add_index_def split: option.splits)

lemma add_columns_append:
  "add_columns f st (xs @ ys) =
     (case add_columns f st xs of Inl p \<Rightarrow> Inl p | Inr st' \<Rightarrow> add_columns f st' ys)"
  by (induction xs arbitrary: st) (auto split: sum.splits)

lemma add_columns_drop:
  assumes "skipped f st (c_TableSchema c) (c_TableName c)"
  shows "add_columns f st (xs @ c # ys) = add_columns f st (xs @ ys)"
proof (cases "add_columns f st xs")
  case (Inl p)
  then show ?thesis by (simp add: add_columns_append)
next
  case (Inr st')
  from has_table_add_columns [OF Inr] assms
  have "skipped f st' (c_TableSchema c) (c_TableName c)"
    by (simp add: skipped_def)
  then show ?thesis
    using Inr by (simp add: add_columns_append add_column_skipped)
qed

lemma mark_primary_keys_drop:
  assumes "skipped f st (pk_SchemaName pk) (pk_TableName pk)"
  shows "foldl (mark_primary_key f) st (xs @ pk # ys) = foldl (mark_primary_key f) st (xs @ ys)"
proof -
  have "skipped f (foldl (mark_primary_key f) st xs) (pk_SchemaName pk) (pk_TableName pk)"
    using assms by (simp add: skipped_def has_table_mark_primary_keys)
  then show ?thesis by (simp add: mark_primary_key_skipped)
qed

lemma mark_foreign_keys_drop:
  assumes "skipped f st (fk_SchemaName fk) (fk_TableName fk)"
  shows "foldl (mark_foreign_key f) st (xs @ fk # ys) = foldl (mark_foreign_key f) st (xs @ ys)"
proof -
  have "skipped f (foldl (mark_foreign_key f) st xs) (fk_SchemaName fk) (fk_TableName fk)"
    using assms by (simp add: skipped_def has_table_mark_foreign_keys)
  then show ?thesis by (simp add: mark_foreign_key_skipped)
qed

lemma scan_loop_append:
  "scan_loop msg (xs @ ys) =
     (case scan_loop msg xs of
        Inl f \<Rightarrow> Inl f
      | Inr xs' \<Rightarrow> (case scan_loop msg ys of Inl f \<Rightarrow> Inl f | Inr ys' \<Rightarrow> Inr (xs' @ ys')))"
proof (induction xs)
  case Nil
  show ?case by (simp split: sum.splits)
next
  case (Cons x xs)
  then show ?case by (cases x) (auto split: sum.splits)
qed

lemma indexes_loop_append:
  "indexes_loop (xs @ ys) =
     (case indexes_loop xs of
        Inl f \<Rightarrow> Inl f
      | Inr xs' \<Rightarrow> (case indexes_loop ys of Inl f \<Rightarrow> Inl f | Inr ys' \<Rightarrow> Inr (xs' @ ys')))"
proof (induction xs)
  case Nil
  show ?case by (simp split: sum.splits)
next
  case (Cons x xs)
  then show ?case by (cases x) (auto split: sum.splits)
qed

lemma query_simps:
  "queryPrimaryKeys (d\<lparr>tables_Query := a\<rparr>) = queryPrimaryKeys d"
  "queryPrimaryKeys (d\<lparr>columns_Query := b\<rparr>) = queryPrimaryKeys d"
  "queryPrimaryKeys (d\<lparr>foreignKeys_Query := c\<rparr>) = queryPrimaryKeys d"
  "queryPrimaryKeys (d\<lparr>indexes_Query := i\<rparr>) = queryPrimaryKeys d"
  "queryForeignKeys (d\<lparr>tables_Query := a\<rparr>) = queryForeignKeys d"
  "queryForeignKeys (d\<lparr>columns_Query := b\<rparr>) = queryForeignKeys d"
  "queryForeignKeys (d\<lparr>primaryKeys_Query := p\<rparr>) = queryForeignKeys d"
  "queryForeignKeys (d\<lparr>indexes_Query := i\<rparr>) = queryForeignKeys d"
  "queryIndexes (d\<lparr>tables_Query := a\<rparr>) = queryIndexes d"
  "queryIndexes (d\<lparr>columns_Query := b\<rparr>) = queryIndexes d"
  "queryIndexes (d\<lparr>primaryKeys_Query := p\<rparr>) = queryIndexes d"
  "queryIndexes (d\<lparr>foreignKeys_Query := c\<rparr>) = queryIndexes d"
  by (simp_all add: queryPrimaryKeys_def queryForeignKeys_def queryIndexes_def)

lemma queryValues_simps:
  "queryValues (d\<lparr>tables_Query := a\<rparr>) = queryValues d"
  "queryValues (d\<lparr>columns_Query := b\<rparr>) = queryValues d"
  "queryValues (d\<lparr>primaryKeys_Query := p\<rparr>) = queryValues d"
  "queryValues (d\<lparr>foreignKeys_Query := c\<rparr>) = queryValues d"
  "queryValues (d\<lparr>indexes_Query := i\<rparr>) = queryValues d"
  by (simp_all add: queryValues_def fun_eq_iff)

lemma enums_loop_cong: "queryValues d' = queryValues d \<Longrightarrow> enums_loop d' ret rs = enums_loop d ret rs"
proof (induction d ret rs rule: enums_loop.induct)
  case (1 d ret)
  then show ?case by simp
next
  case (2 d ret e rs)
  then show ?case by simp
next
  case (3 d ret schema name rs)
  show ?case
  proof (cases "queryValues d schema name")
    case (Inl p)
    with "3.prems" show ?thesis by simp
  next
    case (Inr vals)
    with "3.prems" "3.IH" [OF Inr "3.prems"] show ?thesis by (simp add: fun_upd_def)
  qed
qed

lemma enums_loop_simps:
  "enums_loop (d\<lparr>tables_Query := a\<rparr>) ret rs = enums_loop d ret rs"
  "enums_loop (d\<lparr>columns_Query := b\<rparr>) ret rs = enums_loop d ret rs"
  "enums_loop (d\<lparr>primaryKeys_Query := p\<rparr>) ret rs = enums_loop d ret rs"
  "enums_loop (d\<lparr>foreignKeys_Query := c\<rparr>) ret rs = enums_loop d ret rs"
  "enums_loop (d\<lparr>indexes_Query := i\<rparr>) ret rs = enums_loop d ret rs"
  by (rule enums_loop_cong, simp add: queryValues_simps)+

lemma queryEnums_simps:
  "queryEnums (d\<lparr>tables_Query := a\<rparr>) = queryEnums d"
  "queryEnums (d\<lparr>columns_Query := b\<rparr>) = queryEnums d"
  "queryEnums (d\<lparr>primaryKeys_Query := p\<rparr>) = queryEnums d"
  "queryEnums (d\<lparr>foreignKeys_Query := c\<rparr>) = queryEnums d"
  "queryEnums (d\<lparr>indexes_Query := i\<rparr>) = queryEnums d"
  by (simp_all add: queryEnums_def enums_loop_simps cong: sum.case_cong)

lemma parse_load_schemas:
  "parse ord d names f =
     (case load_schemas d names f of
        Inl p \<Rightarrow> Inl p
      | Inr schemas \<Rightarrow>
          (case queryEnums d of
             Inl p \<Rightarrow> Inl p
           | Inr enums \<Rightarrow>
               (case queryIndexes d of
                  Inl p \<Rightarrow> Inl p
                | Inr indexResults \<Rightarrow>
                    map_sum id (\<lambda>ss. \<lparr> Schemas = ss \<rparr>)
                      (build_schemas ord schemas enums
                         (foldl (add_index f schemas) Map.empty indexResults) 0 names))))"
  by (simp add: parse_def load_schemas_def load_columns_def seed_schemas_def Let_def
      split: option.splits sum.splits)

lemma load_columns_Inr:
  assumes "load_columns d names f = Inr st" and "tables_Query d = Inr tables"
  shows "\<exists>columns. columns_Query d = Inr columns \<and>
           add_columns f (seed_schemas f names tables) columns = Inr st"
proof (cases "sql_Open d")
  case (Some e)
  with assms show ?thesis by (simp add: load_columns_def)
next
  case None
  show ?thesis
  proof (cases "columns_Query d")
    case (Inl e)
    with None assms show ?thesis by (simp add: load_columns_def)
  next
    case (Inr columns)
    with None assms show ?thesis by (simp add: load_columns_def)
  qed
qed

lemma has_table_load_columns:
  assumes "load_columns d names f = Inr st" and "tables_Query d = Inr tables"
  shows "has_table st s t = has_table (seed_schemas f names tables) s t"
  using load_columns_Inr [OF assms] has_table_add_columns by blast

lemma load_schemas_Inr:
  assumes "load_schemas d names f = Inr st"
  shows "\<exists>st1 pks fks. load_columns d names f = Inr st1 \<and> queryPrimaryKeys d = Inr pks \<and>
           queryForeignKeys d = Inr fks \<and>
           st = foldl (mark_foreign_key f) (foldl (mark_primary_key f) st1 pks) fks"
proof (cases "load_columns d names f")
  case (Inl p)
  with assms show ?thesis by (simp add: load_schemas_def)
next
  case st1: (Inr st1)
  show ?thesis
  proof (cases "queryPrimaryKeys d")
    case (Inl p)
    with st1 assms show ?thesis by (simp add: load_schemas_def)
  next
    case pks: (Inr pks)
    show ?thesis
    proof (cases "queryForeignKeys d")
      case (Inl p)
      with st1 pks assms show ?thesis by (simp add: load_schemas_def)
    next
      case (Inr fks)
      with st1 pks assms show ?thesis by (simp add: load_schemas_def)
    qed
  qed
qed

lemma has_table_load_schemas:
  assumes "load_schemas d names f = Inr st" and "tables_Query d = Inr tables"
  shows "has_table st s t = has_table (seed_schemas f names tables) s t"
proof -
  from load_schemas_Inr [OF assms(1)] obtain st1 pks fks
    where "load_columns d names f = Inr st1"
      and "st = foldl (mark_foreign_key f) (foldl (mark_primary_key f) st1 pks) fks"
    by blast
  then show ?thesis
    using has_table_load_columns [OF _ assms(2), of names f st1 s t]
    by (simp add: has_table_mark_primary_keys has_table_mark_foreign_keys)
qed

lemma skipped_load_columns:
  assumes "load_columns d names f = Inr st" and "tables_Query d = Inr tables"
  shows "skipped f st s t = skipped f (seed_schemas f names tables) s t"
  using has_table_load_columns [OF assms] by (simp add: skipped_def)

lemma skipped_load_schemas:
  assumes "load_schemas d names f = Inr st" and "tables_Query d = Inr tables"
  shows "skipped f st s t = skipped f (seed_schemas f names tables) s t"
  using has_table_load_schemas [OF assms] by (simp add: skipped_def)

lemma load_columns_cong:
  assumes "sql_Open d' = sql_Open d" and "tables_Query d' = tables_Query d"
    and "columns_Query d' = columns_Query d"
  shows "load_columns d' names f = load_columns d names f"
  unfolding load_columns_def assms ..

lemma load_columns_simps:
  "load_columns (d\<lparr>primaryKeys_Query := p\<rparr>) names f = load_columns d names f"
  "load_columns (d\<lparr>foreignKeys_Query := c\<rparr>) names f = load_columns d names f"
  "load_columns (d\<lparr>indexes_Query := i\<rparr>) names f = load_columns d names f"
  by (rule load_columns_cong; simp)+

lemma load_schemas_stages:
  "load_schemas d names f =
     (case load_columns d names f of
        Inl p \<Rightarrow> Inl p
      | Inr schemas1 \<Rightarrow>
          (case map_sum id (foldl (mark_primary_key f) schemas1) (queryPrimaryKeys d) of
             Inl p \<Rightarrow> Inl p
           | Inr schemas2 \<Rightarrow>
               map_sum id (foldl (mark_foreign_key f) schemas2) (queryForeignKeys d)))"
  by (simp add: load_schemas_def split: sum.splits)

lemma load_schemas_cong:
  assumes "load_columns d' names f = load_columns d names f"
    and "\<And>st. load_columns d names f = Inr st \<Longrightarrow>
           map_sum id (foldl (mark_primary_key f) st) (queryPrimaryKeys d')
             = map_sum id (foldl (mark_primary_key f) st) (queryPrimaryKeys d)"
    and "\<And>st pks. load_columns d names f = Inr st \<Longrightarrow> queryPrimaryKeys d = Inr pks \<Longrightarrow>
           map_sum id (foldl (mark_foreign_key f) (foldl (mark_primary_key f) st pks))
               (queryForeignKeys d')
             = map_sum id (foldl (mark_foreign_key f) (foldl (mark_primary_key f) st pks))
               (queryForeignKeys d)"
  shows "load_schemas d' names f = load_schemas d names f"
proof (cases "load_columns d names f")
  case (Inl p)
  then show ?thesis by (simp add: load_schemas_stages assms(1))
next
  case (Inr st)
  note pk = assms(2) [OF Inr]
  show ?thesis
  proof (cases "queryPrimaryKeys d")
    case (Inl p)
    with Inr pk show ?thesis by (simp add: load_schemas_stages assms(1))
  next
    case pks: (Inr pks)
    from assms(3) [OF Inr pks] Inr pks pk show ?thesis
      by (simp add: load_schemas_stages assms(1))
  qed
qed

lemma parse_stages:
  "parse ord d names f =
     (case load_schemas d names f of
        Inl p \<Rightarrow> Inl p
      | Inr schemas \<Rightarrow>
          (case queryEnums d of
             Inl p \<Rightarrow> Inl p
           | Inr enums \<Rightarrow>
               (case map_sum id (foldl (add_index f schemas) Map.empty) (queryIndexes d) of
                  Inl p \<Rightarrow> Inl p
                | Inr indexes \<Rightarrow>
                    map_sum id (\<lambda>ss. \<lparr> Schemas = ss \<rparr>)
                      (build_schemas ord schemas enums indexes 0 names))))"
  by (simp add: parse_load_schemas split: sum.splits)

lemma parse_cong:
  assumes "load_schemas d' names f = load_schemas d names f"
    and "queryEnums d' = queryEnums d"
    and "\<And>st. load_schemas d names f = Inr st \<Longrightarrow>
           map_sum id (foldl (add_index f st) Map.empty) (queryIndexes d')
             = map_sum id (foldl (add_index f st) Map.empty) (queryIndexes d)"
  shows "parse ord d' names f = parse ord d names f"
proof (cases "load_schemas d names f")
  case (Inl p)
  then show ?thesis by (simp add: parse_stages assms(1))
next
  case (Inr st)
  from assms(3) [OF Inr] Inr show ?thesis
    by (cases "queryEnums d") (simp_all add: parse_stages assms(1,2))
qed

lemma load_columns_drop_table_row:
  assumes "tables_Query d = Inr (xs @ r # ys)"
    and "\<not> f (t_TableSchema r) (t_TableName r)"
  shows "load_columns (d\<lparr>tables_Query := Inr (xs @ ys)\<rparr>) names f = load_columns d names f"
proof -
  have "seed_table f (foldl (seed_table f) (init_schemas names) xs) r
          = foldl (seed_table f) (init_schemas names) xs"
    using assms(2) by (simp add: seed_table_def)
  then have "seed_schemas f names (xs @ r # ys) = seed_schemas f names (xs @ ys)"
    by (simp add: seed_schemas_def)
  then show ?thesis
    by (cases "sql_Open d"; cases "columns_Query d") (simp_all add: load_columns_def assms(1))
qed

lemma queryPrimaryKeys_drop:
  assumes "primaryKeys_Query d = Inr (Rows (xs @ Inr pk # ys) e)"
    and "skipped f st (pk_SchemaName pk) (pk_TableName pk)"
  shows "map_sum id (foldl (mark_primary_key f) st)
           (queryPrimaryKeys (d\<lparr>primaryKeys_Query := Inr (Rows (xs @ ys) e)\<rparr>))
       = map_sum id (foldl (mark_primary_key f) st) (queryPrimaryKeys d)"
  using assms(1) mark_primary_keys_drop [OF assms(2)]
  by (simp add: queryPrimaryKeys_def scan_loop_append split: sum.splits)

lemma queryForeignKeys_drop:
  assumes "foreignKeys_Query d = Inr (Rows (xs @ Inr fk # ys) e)"
    and "skipped f st (fk_SchemaName fk) (fk_TableName fk)"
  shows "map_sum id (foldl (mark_foreign_key f) st)
           (queryForeignKeys (d\<lparr>foreignKeys_Query := Inr (Rows (xs @ ys) e)\<rparr>))
       = map_sum id (foldl (mark_foreign_key f) st) (queryForeignKeys d)"
  using assms(1) mark_foreign_keys_drop [OF assms(2)]
  by (simp add: queryForeignKeys_def scan_loop_append split: sum.splits option.splits)

lemma queryIndexes_drop:
  assumes "indexes_Query d = Inr (Rows (xs @ Inr raw # ys) e)"
    and "index_row raw = Inr r"
    and "\<And>ix. add_index f st ix r = ix"
  shows "map_sum id (foldl (add_index f st) Map.empty)
           (queryIndexes (d\<lparr>indexes_Query := Inr (Rows (xs @ ys) e)\<rparr>))
       = map_sum id (foldl (add_index f st) Map.empty) (queryIndexes d)"
  using assms
  by (simp add: queryIndexes_def deferred_Close_def indexes_loop_append split: sum.splits)

lemma parse_drop_table_row:
  assumes "tables_Query d = Inr (xs @ r # ys)"
    and "\<not> f (t_TableSchema r) (t_TableName r)"
  shows "parse ord (d\<lparr>tables_Query := Inr (xs @ ys)\<rparr>) names f = parse ord d names f"
proof (rule parse_cong)
  show "load_schemas (d\<lparr>tables_Query := Inr (xs @ ys)\<rparr>) names f = load_schemas d names f"
    by (rule load_schemas_cong)
       (simp_all add: load_columns_drop_table_row [of d xs r ys f names] assms query_simps)
qed (simp_all add: query_simps queryEnums_simps)

lemma parse_drop_index_row_gen:
  assumes "indexes_Query d = Inr (Rows (xs @ Inr raw # ys) e)"
    and "index_row raw = Inr r"
    and "\<And>st ix. load_schemas d names f = Inr st \<Longrightarrow> add_index f st ix r = ix"
  shows "parse ord (d\<lparr>indexes_Query := Inr (Rows (xs @ ys) e)\<rparr>) names f = parse ord d names f"
proof (rule parse_cong)
  show "load_schemas (d\<lparr>indexes_Query := Inr (Rows (xs @ ys) e)\<rparr>) names f
          = load_schemas d names f"
    by (rule load_schemas_cong) (simp_all add: load_columns_simps query_simps)
next
  fix st
  assume "load_schemas d names f = Inr st"
  from assms(3) [OF this]
  show "map_sum id (foldl (add_index f st) Map.empty)
           (queryIndexes (d\<lparr>indexes_Query := Inr (Rows (xs @ ys) e)\<rparr>))
       = map_sum id (foldl (add_index f st) Map.empty) (queryIndexes d)"
    by (rule queryIndexes_drop [OF assms(1,2)])
qed (simp_all add: queryEnums_simps)

lemma range_map_entry:
  "(k, v) \<in> set (range_map visit m) \<Longrightarrow> map_of m k = Some v"
  by (auto simp: range_map_def List.map_filter_def)

lemma dbtables_of_foldl:
  assumes "dbtables_of tables dbt"
    and "\<forall>(k, v) \<in> set kvs. map_of tables k = Some v"
  shows "dbtables_of tables
           (foldl (\<lambda>dbtables (tname, columns).
                     AList.update tname \<lparr> tb_Name = tname, tb_Columns = columns, tb_Indexes = [] \<rparr> dbtables)
              dbt kvs)"
  using assms
proof (induction kvs arbitrary: dbt)
  case Nil
  then show ?case by simp
next
  case (Cons kv kvs)
  obtain k v where kv: "kv = (k, v)" by (cases kv)
  from Cons.prems have "map_of tables k = Some v" by (simp add: kv)
  with Cons.prems(1)
  have "dbtables_of tables
          (AList.update k \<lparr> tb_Name = k, tb_Columns = v, tb_Indexes = [] \<rparr> dbt)"
    by (simp add: dbtables_of_def update_conv')
  with Cons.IH [OF this] Cons.prems(2) show ?case by (simp add: kv)
qed

lemma dbtables_of_make_dbtables: "dbtables_of tables (make_dbtables visit tables)"
  unfolding make_dbtables_def
  by (rule dbtables_of_foldl) (auto simp: dbtables_of_def dest: range_map_entry)

lemma dbtables_of_set_indexes:
  assumes "set_indexes ord i dbt rest = Inr dbt'" and "dbtables_of tables dbt"
  shows "dbtables_of tables dbt'"
  using assms
proof (induction ord i dbt rest rule: set_indexes.induct)
  case (1 ord i dbtables)
  then show ?case by simp
next
  case (2 ord i dbtables tname index rest)
  from "2.prems"(1) obtain table where table: "map_of dbtables tname = Some table"
    by (auto split: option.splits)
  have "dbtables_of tables
          (AList.update tname
             (table\<lparr>tb_Indexes := make_indexes (ord (RangeIndex i tname)) index\<rparr>) dbtables)"
    using "2.prems"(2) table by (simp add: dbtables_of_def update_conv')
  from "2.IH" [OF table _ this] "2.prems"(1) table show ?case by simp
qed

lemma foldl_snoc_snd: "foldl (\<lambda>ts (tname, table). ts @ [table]) acc kvs = acc @ map snd kvs"
  by (induction kvs arbitrary: acc) auto

lemma schema_tables_columns:
  assumes "schema_tables ord i tables schemaIndex = Inr ts" and "tb \<in> set ts"
  shows "map_of tables (tb_Name tb) = Some (tb_Columns tb)"
proof -
  from assms(1) obtain dbt where
    dbt: "set_indexes ord i (make_dbtables (ord (RangeTables i)) tables)
             (range_map (ord (RangeIndexes i)) schemaIndex) = Inr dbt"
    and ts: "ts = map snd (range_map (ord (RangeDbtables i)) dbt)"
    by (auto simp: schema_tables_def foldl_snoc_snd split: sum.splits)
  from dbtables_of_set_indexes [OF dbt dbtables_of_make_dbtables]
  have ok: "dbtables_of tables dbt" .
  from assms(2) ts obtain k where "(k, tb) \<in> set (range_map (ord (RangeDbtables i)) dbt)"
    by auto
  then have "map_of dbt k = Some tb" by (rule range_map_entry)
  with ok show ?thesis by (auto simp: dbtables_of_def)
qed

lemma build_schemas_tables:
  assumes "build_schemas ord schemas enums indexes i names = Inr ss"
    and "sc \<in> set ss" and "tb \<in> set (sc_Tables sc)"
  shows "map_of (slice_at schemas (sc_Name sc)) (tb_Name tb) = Some (tb_Columns tb)"
  using assms
proof (induction names arbitrary: i ss)
  case Nil
  then show ?case by simp
next
  case (Cons schema rest)
  from Cons.prems(1) obtain ts ss' where
    ts: "schema_tables ord i (slice_at schemas schema) (slice_at indexes schema) = Inr ts"
    and ss': "build_schemas ord schemas enums indexes (Suc i) rest = Inr ss'"
    and ss: "ss = \<lparr> sc_Name = schema, sc_Tables = ts, sc_Enums = slice_at enums schema \<rparr> # ss'"
    by (auto split: sum.splits)
  show ?case
  proof (cases "sc \<in> set ss'")
    case True
    from Cons.IH [OF ss' True Cons.prems(3)] show ?thesis .
  next
    case False
    with Cons.prems(2) ss
    have sc: "sc = \<lparr> sc_Name = schema, sc_Tables = ts, sc_Enums = slice_at enums schema \<rparr>"
      by simp
    with Cons.prems(3) have "tb \<in> set ts" by simp
    from schema_tables_columns [OF ts this] sc show ?thesis by simp
  qed
qed

lemma parse_Inr:
  assumes "parse ord d names f = Inr m"
  shows "\<exists>st enums irs. load_schemas d names f = Inr st \<and> queryEnums d = Inr enums \<and>
           queryIndexes d = Inr irs \<and>
           build_schemas ord st enums (foldl (add_index f st) Map.empty irs) 0 names
             = Inr (Schemas m)"
proof (cases "load_schemas d names f")
  case (Inl p)
  with assms show ?thesis by (simp add: parse_load_schemas)
next
  case st: (Inr st)
  show ?thesis
  proof (cases "queryEnums d")
    case (Inl p)
    with st assms show ?thesis by (simp add: parse_load_schemas)
  next
    case enums: (Inr enums)
    show ?thesis
    proof (cases "queryIndexes d")
      case (Inl p)
      with st enums assms show ?thesis by (simp add: parse_load_schemas)
    next
      case (Inr irs)
      with st enums assms show ?thesis
        by (cases "build_schemas ord st enums (foldl (add_index f st) Map.empty irs) 0 names")
           (auto simp: parse_load_schemas)
    qed
  qed
qed

lemma parse_tables_loaded:
  assumes "parse ord d names f = Inr m"
    and "sc \<in> set (Schemas m)" and "tb \<in> set (sc_Tables sc)"
  shows "\<exists>st tables. load_schemas d names f = Inr st \<and> st (sc_Name sc) = Some tables \<and>
           map_of tables (tb_Name tb) = Some (tb_Columns tb)"
proof -
  from parse_Inr [OF assms(1)] obtain st enums irs where
    st: "load_schemas d names f = Inr st"
    and b: "build_schemas ord st enums (foldl (add_index f st) Map.empty irs) 0 names
             = Inr (Schemas m)"
    by blast
  from build_schemas_tables [OF b assms(2,3)]
  have "map_of (slice_at st (sc_Name sc)) (tb_Name tb) = Some (tb_Columns tb)" .
  then have "\<exists>tables. st (sc_Name sc) = Some tables \<and>
           map_of tables (tb_Name tb) = Some (tb_Columns tb)"
    by (cases "st (sc_Name sc)") (simp_all add: slice_at_def)
  with st show ?thesis by blast
qed

lemma has_table_fresh_schema: "has_table (st(a \<mapsto> [])) s t \<Longrightarrow> has_table st s t"
  by (cases "s = a") (simp_all add: has_table_def)

lemma has_table_init_schemas_aux:
  "has_table (foldl (\<lambda>schemas name. schemas(name \<mapsto> [])) st names) s t \<Longrightarrow> has_table st s t"
proof (induction names arbitrary: st)
  case Nil
  then show ?case by simp
next
  case (Cons a names)
  from Cons.prems have "has_table (st(a \<mapsto> [])) s t"
    by (simp add: Cons.IH)
  then show ?case by (rule has_table_fresh_schema)
qed

lemma has_table_init_schemas: "\<not> has_table (init_schemas names) s t"
proof
  assume "has_table (init_schemas names) s t"
  then have "has_table Map.empty s t"
    unfolding init_schemas_def by (rule has_table_init_schemas_aux)
  then show False by (simp add: has_table_def)
qed

lemma has_table_seed_filter_aux:
  "has_table (foldl (seed_table f) st tables) s t \<Longrightarrow> has_table st s t \<or> f s t"
proof (induction tables arbitrary: st)
  case Nil
  then show ?case by simp
next
  case (Cons r tables)
  from Cons.prems have "has_table (seed_table f st r) s t \<or> f s t"
    by (simp add: Cons.IH)
  then show ?case by (auto simp: has_table_seed_table)
qed

lemma has_table_seed_schemas: "has_table (seed_schemas f names tables) s t \<Longrightarrow> f s t"
  using has_table_seed_filter_aux [of f "init_schemas names" tables s t] has_table_init_schemas
  by (auto simp: seed_schemas_def)

lemma parse_tables_seeded:
  assumes "parse ord d names f = Inr m"
    and "sc \<in> set (Schemas m)" and "tb \<in> set (sc_Tables sc)"
  shows "\<exists>tables. tables_Query d = Inr tables \<and>
           has_table (seed_schemas f names tables) (sc_Name sc) (tb_Name tb)"
proof -
  from parse_tables_loaded [OF assms] obtain st tm where
    st: "load_schemas d names f = Inr st" and "st (sc_Name sc) = Some tm"
    and "map_of tm (tb_Name tb) = Some (tb_Columns tb)"
    by blast
  then have h: "has_table st (sc_Name sc) (tb_Name tb)" by (simp add: has_table_def)
  from load_schemas_Inr [OF st] obtain st1 where st1: "load_columns d names f = Inr st1"
    by blast
  then obtain tables where tables: "tables_Query d = Inr tables"
    by (cases "sql_Open d"; cases "tables_Query d") (simp_all add: load_columns_def)
  from has_table_load_schemas [OF st tables] h tables show ?thesis by simp
qed

lemma row_skipped_filter: "\<not> f s t \<Longrightarrow> row_skipped d names f s t"
  by (simp add: row_skipped_def skipped_def split: sum.splits)

lemma row_skipped_unseeded:
  "tables_Query d = Inr tables \<Longrightarrow> \<not> has_table (seed_schemas f names tables) s t \<Longrightarrow>
   row_skipped d names f s t"
  by (simp add: row_skipped_def skipped_def)

lemma row_skipped_simps:
  "row_skipped (d\<lparr>columns_Query := b\<rparr>) = row_skipped d"
  "row_skipped (d\<lparr>primaryKeys_Query := p\<rparr>) = row_skipped d"
  "row_skipped (d\<lparr>foreignKeys_Query := c\<rparr>) = row_skipped d"
  "row_skipped (d\<lparr>indexes_Query := i\<rparr>) = row_skipped d"
  by (simp_all add: row_skipped_def fun_eq_iff)

lemma load_columns_tables:
  assumes "load_columns d names f = Inr st"
  shows "\<exists>tables. tables_Query d = Inr tables"
  using assms
  by (cases "sql_Open d"; cases "tables_Query d") (simp_all add: load_columns_def)

lemma row_skipped_load_columns:
  assumes "load_columns d names f = Inr st" and "row_skipped d names f s t"
  shows "skipped f st s t"
proof -
  from load_columns_tables [OF assms(1)] obtain tables where t: "tables_Query d = Inr tables" ..
  from skipped_load_columns [OF assms(1) t] assms(2) t show ?thesis
    by (simp add: row_skipped_def)
qed

lemma row_skipped_load_schemas:
  assumes "load_schemas d names f = Inr st" and "row_skipped d names f s t"
  shows "skipped f st s t"
proof -
  from load_schemas_Inr [OF assms(1)] obtain st1 where "load_columns d names f = Inr st1"
    by blast
  from load_columns_tables [OF this] obtain tables where t: "tables_Query d = Inr tables" ..
  from skipped_load_schemas [OF assms(1) t] assms(2) t show ?thesis
    by (simp add: row_skipped_def)
qed

lemma load_columns_skip_column_row:
  assumes "columns_Query d = Inr (xs @ c # ys)"
    and "row_skipped d names f (c_TableSchema c) (c_TableName c)"
  shows "load_columns (d\<lparr>columns_Query := Inr (xs @ ys)\<rparr>) names f = load_columns d names f"
proof (cases "tables_Query d")
  case (Inl e)
  then show ?thesis by (cases "sql_Open d") (simp_all add: load_columns_def)
next
  case (Inr tables)
  with assms(2) have "skipped f (seed_schemas f names tables) (c_TableSchema c) (c_TableName c)"
    by (simp add: row_skipped_def)
  from add_columns_drop [OF this, of xs ys] Inr show ?thesis
    by (cases "sql_Open d") (simp_all add: load_columns_def assms(1))
qed

lemma parse_skip_column_row:
  assumes "columns_Query d = Inr (xs @ c # ys)"
    and "row_skipped d names f (c_TableSchema c) (c_TableName c)"
  shows "parse ord (d\<lparr>columns_Query := Inr (xs @ ys)\<rparr>) names f = parse ord d names f"
proof (rule parse_cong)
  show "load_schemas (d\<lparr>columns_Query := Inr (xs @ ys)\<rparr>) names f = load_schemas d names f"
    by (rule load_schemas_cong)
       (simp_all add: load_columns_skip_column_row [of d xs c ys names f] assms query_simps)
qed (simp_all add: query_simps queryEnums_simps)

lemma parse_skip_primary_key_row:
  assumes "primaryKeys_Query d = Inr (Rows (xs @ Inr pk # ys) e)"
    and "row_skipped d names f (pk_SchemaName pk) (pk_TableName pk)"
  shows "parse ord (d\<lparr>primaryKeys_Query := Inr (Rows (xs @ ys) e)\<rparr>) names f = parse ord d names f"
proof (rule parse_cong)
  show "load_schemas (d\<lparr>primaryKeys_Query := Inr (Rows (xs @ ys) e)\<rparr>) names f
          = load_schemas d names f"
  proof (rule load_schemas_cong)
    fix st
    assume "load_columns d names f = Inr st"
    from row_skipped_load_columns [OF this assms(2)]
    show "map_sum id (foldl (mark_primary_key f) st)
           (queryPrimaryKeys (d\<lparr>primaryKeys_Query := Inr (Rows (xs @ ys) e)\<rparr>))
       = map_sum id (foldl (mark_primary_key f) st) (queryPrimaryKeys d)"
      by (rule queryPrimaryKeys_drop [OF assms(1)])
  qed (simp_all add: load_columns_simps query_simps)
qed (simp_all add: query_simps queryEnums_simps)

lemma parse_skip_foreign_key_row:
  assumes "foreignKeys_Query d = Inr (Rows (xs @ Inr fk # ys) e)"
    and "row_skipped d names f (fk_SchemaName fk) (fk_TableName fk)"
  shows "parse ord (d\<lparr>foreignKeys_Query := Inr (Rows (xs @ ys) e)\<rparr>) names f = parse ord d names f"
proof (rule parse_cong)
  show "load_schemas (d\<lparr>foreignKeys_Query := Inr (Rows (xs @ ys) e)\<rparr>) names f
          = load_schemas d names f"
  proof (rule load_schemas_cong)
    fix st pks
    assume "load_columns d names f = Inr st"
    from row_skipped_load_columns [OF this assms(2)]
    have "skipped f (foldl (mark_primary_key f) st pks) (fk_SchemaName fk) (fk_TableName fk)"
      by (simp add: skipped_def has_table_mark_primary_keys)
    then show "map_sum id (foldl (mark_foreign_key f) (foldl (mark_primary_key f) st pks))
           (queryForeignKeys (d\<lparr>foreignKeys_Query := Inr (Rows (xs @ ys) e)\<rparr>))
       = map_sum id (foldl (mark_foreign_key f) (foldl (mark_primary_key f) st pks))
           (queryForeignKeys d)"
      by (rule queryForeignKeys_drop [OF assms(1)])
  qed (simp_all add: load_columns_simps query_simps)
qed (simp_all add: query_simps queryEnums_simps)

lemma parse_skip_index_row:
  assumes "indexes_Query d = Inr (Rows (xs @ Inr raw # ys) e)"
    and "index_row raw = Inr r"
    and "row_skipped d names f (ir_SchemaName r) (ir_TableName r)"
  shows "parse ord (d\<lparr>indexes_Query := Inr (Rows (xs @ ys) e)\<rparr>) names f = parse ord d names f"
proof (rule parse_drop_index_row_gen [OF assms(1,2)])
  fix st ix
  assume "load_schemas d names f = Inr st"
  from row_skipped_load_schemas [OF this assms(3)]
  show "add_index f st ix r = ix"
    by (rule add_index_skipped)
qed

subsection \<open>Rows of tables that are filtered out or were never seeded\<close>

text \<open>
  A column, primary-key or foreign-key row whose pair \<open>(s, t)\<close> is not in the seeded
  model, and an index row of such a pair that \<^verbatim>\<open>queryIndexes\<close> could cut the table name
  of, is passed over: \<^verbatim>\<open>parse\<close> ends exactly as it does on the same answers without that
  row.
\<close>

lemma unseeded_rows_skipped:
  assumes "tables_Query d = Inr tables"
    and "\<not> has_table (seed_schemas filterTables schemaNames tables) s t"
  shows "(\<forall>xs c ys. columns_Query d = Inr (xs @ c # ys) \<and> c_TableSchema c = s \<and> c_TableName c = t \<longrightarrow>
            parse ord (d\<lparr>columns_Query := Inr (xs @ ys)\<rparr>) schemaNames filterTables
              = parse ord d schemaNames filterTables) \<and>
         (\<forall>xs pk ys e. primaryKeys_Query d = Inr (Rows (xs @ Inr pk # ys) e) \<and>
              pk_SchemaName pk = s \<and> pk_TableName pk = t \<longrightarrow>
            parse ord (d\<lparr>primaryKeys_Query := Inr (Rows (xs @ ys) e)\<rparr>) schemaNames filterTables
              = parse ord d schemaNames filterTables) \<and>
         (\<forall>xs fk ys e. foreignKeys_Query d = Inr (Rows (xs @ Inr fk # ys) e) \<and>
              fk_SchemaName fk = s \<and> fk_TableName fk = t \<longrightarrow>
            parse ord (d\<lparr>foreignKeys_Query := Inr (Rows (xs @ ys) e)\<rparr>) schemaNames filterTables
              = parse ord d schemaNames filterTables) \<and>
         (\<forall>xs raw ys e r. indexes_Query d = Inr (Rows (xs @ Inr raw # ys) e) \<and>
              index_row raw = Inr r \<and> ir_SchemaName r = s \<and> ir_TableName r = t \<longrightarrow>
            parse ord (d\<lparr>indexes_Query := Inr (Rows (xs @ ys) e)\<rparr>) schemaNames filterTables
              = parse ord d schemaNames filterTables)"
proof -
  note sk = row_skipped_unseeded [OF assms]
  show ?thesis
  proof (intro conjI allI impI)
    fix xs c ys
    assume "columns_Query d = Inr (xs @ c # ys) \<and> c_TableSchema c = s \<and> c_TableName c = t"
    with sk show "parse ord (d\<lparr>columns_Query := Inr (xs @ ys)\<rparr>) schemaNames filterTables
              = parse ord d schemaNames filterTables"
      by (simp add: parse_skip_column_row)
  next
    fix xs pk ys e
    assume "primaryKeys_Query d = Inr (Rows (xs @ Inr pk # ys) e) \<and>
              pk_SchemaName pk = s \<and> pk_TableName pk = t"
    with sk show "parse ord (d\<lparr>primaryKeys_Query := Inr (Rows (xs @ ys) e)\<rparr>) schemaNames filterTables
              = parse ord d schemaNames filterTables"
      by (simp add: parse_skip_primary_key_row)
  next
    fix xs fk ys e
    assume "foreignKeys_Query d = Inr (Rows (xs @ Inr fk # ys) e) \<and>
              fk_SchemaName fk = s \<and> fk_TableName fk = t"
    with sk show "parse ord (d\<lparr>foreignKeys_Query := Inr (Rows (xs @ ys) e)\<rparr>) schemaNames filterTables
              = parse ord d schemaNames filterTables"
      by (simp add: parse_skip_foreign_key_row)
  next
    fix xs raw ys e r
    assume "indexes_Query d = Inr (Rows (xs @ Inr raw # ys) e) \<and>
              index_row raw = Inr r \<and> ir_SchemaName r = s \<and> ir_TableName r = t"
    with sk show "parse ord (d\<lparr>indexes_Query := Inr (Rows (xs @ ys) e)\<rparr>) schemaNames filterTables
              = parse ord d schemaNames filterTables"
      by (auto intro: parse_skip_index_row)
  qed
qed

lemma unseeded_rows_skipped_witness:
  "tables_Query stray_db = Inr [\<lparr> t_TableSchema = ''public'', t_TableName = ''a'' \<rparr>,
                               \<lparr> t_TableSchema = ''public'', t_TableName = ''b'' \<rparr>] \<and>
   \<not> has_table (seed_schemas all_tables [''public'']
                   [\<lparr> t_TableSchema = ''public'', t_TableName = ''a'' \<rparr>,
                    \<lparr> t_TableSchema = ''public'', t_TableName = ''b'' \<rparr>]) ''public'' ''c'' \<and>
   parse in_order
     (stray_db\<lparr>columns_Query :=
        Inr ([text_column ''public'' ''a'' ''id''] @
             [text_column ''public'' ''b'' ''id'', text_column ''public'' ''b'' ''aid''])\<rparr>)
     [''public''] all_tables
     = parse in_order stray_db [''public''] all_tables \<and>
   parse in_order (stray_db\<lparr>primaryKeys_Query := Inr (Rows ([] @ []) None)\<rparr>)
     [''public''] all_tables
     = parse in_order stray_db [''public''] all_tables"
proof -
  have t: "tables_Query stray_db = Inr [\<lparr> t_TableSchema = ''public'', t_TableName = ''a'' \<rparr>,
                               \<lparr> t_TableSchema = ''public'', t_TableName = ''b'' \<rparr>]"
    by (simp add: stray_db_def sample_db_def)
  have u: "\<not> has_table (seed_schemas all_tables [''public'']
                   [\<lparr> t_TableSchema = ''public'', t_TableName = ''a'' \<rparr>,
                    \<lparr> t_TableSchema = ''public'', t_TableName = ''b'' \<rparr>]) ''public'' ''c''"
    by code_simp
  have c: "columns_Query stray_db =
             Inr ([text_column ''public'' ''a'' ''id''] @
                  text_column ''public'' ''c'' ''id'' #
                  [text_column ''public'' ''b'' ''id'', text_column ''public'' ''b'' ''aid''])"
    by (simp add: stray_db_def)
  have p: "primaryKeys_Query stray_db = Inr (Rows ([] @ Inr c_pk # []) None)"
    by (simp add: stray_db_def)
  have n: "c_TableSchema (text_column ''public'' ''c'' ''id'') = ''public''"
          "c_TableName (text_column ''public'' ''c'' ''id'') = ''c''"
          "pk_SchemaName c_pk = ''public''" "pk_TableName c_pk = ''c''"
    by (simp_all add: text_column_def c_pk_def)
  from unseeded_rows_skipped [OF t u, of in_order] c p n t u show ?thesis
    by blast
qed

text \<open>
  C5. When the filter rejects a pair \<open>(s, t)\<close>, no schema named \<open>s\<close> of the returned
  model holds a table named \<open>t\<close>, and every table, column, primary-key, foreign-key and
  index row of the pair is passed over: the run ends as it does without the row, so
  nothing in the model derives from it.
\<close>

theorem filtered_table_excluded:
  assumes "\<not> filterTables s t"
  shows "(\<forall>m sc tb. parse ord d schemaNames filterTables = Inr m \<and> sc \<in> set (Schemas m) \<and>
              tb \<in> set (sc_Tables sc) \<and> sc_Name sc = s \<longrightarrow> tb_Name tb \<noteq> t) \<and>
         (\<forall>xs r ys. tables_Query d = Inr (xs @ r # ys) \<and> t_TableSchema r = s \<and> t_TableName r = t \<longrightarrow>
            parse ord (d\<lparr>tables_Query := Inr (xs @ ys)\<rparr>) schemaNames filterTables
              = parse ord d schemaNames filterTables) \<and>
         (\<forall>xs c ys. columns_Query d = Inr (xs @ c # ys) \<and> c_TableSchema c = s \<and> c_TableName c = t \<longrightarrow>
            parse ord (d\<lparr>columns_Query := Inr (xs @ ys)\<rparr>) schemaNames filterTables
              = parse ord d schemaNames filterTables) \<and>
         (\<forall>xs pk ys e. primaryKeys_Query d = Inr (Rows (xs @ Inr pk # ys) e) \<and>
              pk_SchemaName pk = s \<and> pk_TableName pk = t \<longrightarrow>
            parse ord (d\<lparr>primaryKeys_Query := Inr (Rows (xs @ ys) e)\<rparr>) schemaNames filterTables
              = parse ord d schemaNames filterTables) \<and>
         (\<forall>xs fk ys e. foreignKeys_Query d = Inr (Rows (xs @ Inr fk # ys) e) \<and>
              fk_SchemaName fk = s \<and> fk_TableName fk = t \<longrightarrow>
            parse ord (d\<lparr>foreignKeys_Query := Inr (Rows (xs @ ys) e)\<rparr>) schemaNames filterTables
              = parse ord d schemaNames filterTables) \<and>
         (\<forall>xs raw ys e r. indexes_Query d = Inr (Rows (xs @ Inr raw # ys) e) \<and>
              index_row raw = Inr r \<and> ir_SchemaName r = s \<and> ir_TableName r = t \<longrightarrow>
            parse ord (d\<lparr>indexes_Query := Inr (Rows (xs @ ys) e)\<rparr>) schemaNames filterTables
              = parse ord d schemaNames filterTables)"
proof -
  have sk: "row_skipped d schemaNames filterTables s t"
    using assms by (rule row_skipped_filter)
  show ?thesis
  proof (intro conjI allI impI)
    fix m sc tb
    assume a: "parse ord d schemaNames filterTables = Inr m \<and> sc \<in> set (Schemas m) \<and>
              tb \<in> set (sc_Tables sc) \<and> sc_Name sc = s"
    then obtain tables where
      "has_table (seed_schemas filterTables schemaNames tables) (sc_Name sc) (tb_Name tb)"
      using parse_tables_seeded [of ord d schemaNames filterTables m sc tb] by blast
    then have "filterTables (sc_Name sc) (tb_Name tb)"
      by (rule has_table_seed_schemas)
    with a assms show "tb_Name tb \<noteq> t" by auto
  next
    fix xs r ys
    assume "tables_Query d = Inr (xs @ r # ys) \<and> t_TableSchema r = s \<and> t_TableName r = t"
    with assms show "parse ord (d\<lparr>tables_Query := Inr (xs @ ys)\<rparr>) schemaNames filterTables
              = parse ord d schemaNames filterTables"
      by (simp add: parse_drop_table_row)
  next
    fix xs c ys
    assume "columns_Query d = Inr (xs @ c # ys) \<and> c_TableSchema c = s \<and> c_TableName c = t"
    with sk show "parse ord (d\<lparr>columns_Query := Inr (xs @ ys)\<rparr>) schemaNames filterTables
              = parse ord d schemaNames filterTables"
      by (simp add: parse_skip_column_row)
  next
    fix xs pk ys e
    assume "primaryKeys_Query d = Inr (Rows (xs @ Inr pk # ys) e) \<and>
              pk_SchemaName pk = s \<and> pk_TableName pk = t"
    with sk show "parse ord (d\<lparr>primaryKeys_Query := Inr (Rows (xs @ ys) e)\<rparr>) schemaNames filterTables
              = parse ord d schemaNames filterTables"
      by (simp add: parse_skip_primary_key_row)
  next
    fix xs fk ys e
    assume "foreignKeys_Query d = Inr (Rows (xs @ Inr fk # ys) e) \<and>
              fk_SchemaName fk = s \<and> fk_TableName fk = t"
    with sk show "parse ord (d\<lparr>foreignKeys_Query := Inr (Rows (xs @ ys) e)\<rparr>) schemaNames filterTables
              = parse ord d schemaNames filterTables"
      by (simp add: parse_skip_foreign_key_row)
  next
    fix xs raw ys e r
    assume "indexes_Query d = Inr (Rows (xs @ Inr raw # ys) e) \<and>
              index_row raw = Inr r \<and> ir_SchemaName r = s \<and> ir_TableName r = t"
    with sk show "parse ord (d\<lparr>indexes_Query := Inr (Rows (xs @ ys) e)\<rparr>) schemaNames filterTables
              = parse ord d schemaNames filterTables"
      by (auto intro: parse_skip_index_row)
  qed
qed

theorem filtered_table_excluded_witness:
  "\<not> only_b ''public'' ''a'' \<and>
   parse in_order sample_db [''public''] only_b =
     Inr \<lparr> Schemas =
       [\<lparr> sc_Name = ''public'',
          sc_Tables =
            [\<lparr> tb_Name = ''b'',
               tb_Columns = [text_Column ''public'' ''b'' ''id'',
                             text_Column ''public'' ''b'' ''aid''],
               tb_Indexes = [] \<rparr>],
          sc_Enums = [] \<rparr>] \<rparr> \<and>
   parse in_order
     (sample_db\<lparr>tables_Query := Inr ([] @ [\<lparr> t_TableSchema = ''public'', t_TableName = ''b'' \<rparr>])\<rparr>)
     [''public''] only_b
     = parse in_order sample_db [''public''] only_b \<and>
   parse in_order
     (sample_db\<lparr>columns_Query :=
        Inr ([] @ [text_column ''public'' ''b'' ''id'', text_column ''public'' ''b'' ''aid''])\<rparr>)
     [''public''] only_b
     = parse in_order sample_db [''public''] only_b"
proof -
  have f: "\<not> only_b ''public'' ''a''"
    by (simp add: only_b_def)
  have m: "parse in_order sample_db [''public''] only_b =
     Inr \<lparr> Schemas =
       [\<lparr> sc_Name = ''public'',
          sc_Tables =
            [\<lparr> tb_Name = ''b'',
               tb_Columns = [text_Column ''public'' ''b'' ''id'',
                             text_Column ''public'' ''b'' ''aid''],
               tb_Indexes = [] \<rparr>],
          sc_Enums = [] \<rparr>] \<rparr>"
    by code_simp
  have t: "tables_Query sample_db =
             Inr ([] @ \<lparr> t_TableSchema = ''public'', t_TableName = ''a'' \<rparr> #
                  [\<lparr> t_TableSchema = ''public'', t_TableName = ''b'' \<rparr>])"
    by (simp add: sample_db_def)
  have c: "columns_Query sample_db =
             Inr ([] @ text_column ''public'' ''a'' ''id'' #
                  [text_column ''public'' ''b'' ''id'', text_column ''public'' ''b'' ''aid''])"
    by (simp add: sample_db_def)
  have n: "c_TableSchema (text_column ''public'' ''a'' ''id'') = ''public''"
          "c_TableName (text_column ''public'' ''a'' ''id'') = ''a''"
    by (simp_all add: text_column_def)
  note th = filtered_table_excluded [of only_b "''public''" "''a''" in_order sample_db "[''public'']"]
  from th f t have 1: "parse in_order
     (sample_db\<lparr>tables_Query := Inr ([] @ [\<lparr> t_TableSchema = ''public'', t_TableName = ''b'' \<rparr>])\<rparr>)
     [''public''] only_b
     = parse in_order sample_db [''public''] only_b"
    by (metis table_row.select_convs(1) table_row.select_convs(2))
  from th f c n have 2: "parse in_order
     (sample_db\<lparr>columns_Query :=
        Inr ([] @ [text_column ''public'' ''b'' ''id'', text_column ''public'' ''b'' ''aid''])\<rparr>)
     [''public''] only_b
     = parse in_order sample_db [''public''] only_b"
    by blast
  note 1 2
  with f m show ?thesis by blast
qed

subsection \<open>Properties of every column of the model\<close>

lemma all_columnsD:
  "all_columns P st \<Longrightarrow> st s = Some tables \<Longrightarrow> map_of tables t = Some cols \<Longrightarrow> c \<in> set cols \<Longrightarrow> P s t c"
  unfolding all_columns_def by blast

lemma all_columns_init_aux:
  "all_columns P st \<Longrightarrow> all_columns P (foldl (\<lambda>schemas name. schemas(name \<mapsto> [])) st names)"
proof (induction names arbitrary: st)
  case Nil
  then show ?case by simp
next
  case (Cons a names)
  from Cons.prems have "all_columns P (st(a \<mapsto> []))"
    by (auto simp: all_columns_def)
  from Cons.IH [OF this] show ?case by (simp only: foldl.simps)
qed

lemma all_columns_init_schemas: "all_columns P (init_schemas names)"
  unfolding init_schemas_def
  by (rule all_columns_init_aux) (simp add: all_columns_def)

lemma all_columns_seed_table:
  assumes "all_columns P st"
  shows "all_columns P (seed_table f st r)"
proof (cases "f (t_TableSchema r) (t_TableName r)")
  case False
  with assms show ?thesis by (simp add: seed_table_def)
next
  case True
  show ?thesis
  proof (cases "st (t_TableSchema r)")
    case None
    with True assms show ?thesis by (simp add: seed_table_def)
  next
    case (Some tm)
    have "P s t c"
      if "(st(t_TableSchema r \<mapsto> AList.update (t_TableName r) [] tm)) s = Some tables"
        and "map_of tables t = Some cols" and "c \<in> set cols" for s tables t cols c
    proof (cases "s = t_TableSchema r")
      case False
      with that assms show ?thesis by (auto dest: all_columnsD)
    next
      case s: True
      with that(1) have tables: "tables = AList.update (t_TableName r) [] tm" by simp
      show ?thesis
      proof (cases "t = t_TableName r")
        case True
        with that(2,3) tables show ?thesis by (simp add: update_conv')
      next
        case False
        with that(2) tables have "map_of tm t = Some cols" by (simp add: update_conv')
        with assms Some s that(3) show ?thesis by (auto dest: all_columnsD)
      qed
    qed
    then have "all_columns P (st(t_TableSchema r \<mapsto> AList.update (t_TableName r) [] tm))"
      unfolding all_columns_def by blast
    with True Some show ?thesis by (simp add: seed_table_def)
  qed
qed

lemma all_columns_seed_schemas: "all_columns P (seed_schemas f names tables)"
proof -
  have "all_columns P st \<Longrightarrow> all_columns P (foldl (seed_table f) st tables)" for st
    by (induction tables arbitrary: st) (simp_all add: all_columns_seed_table)
  then show ?thesis
    unfolding seed_schemas_def using all_columns_init_schemas by blast
qed

text \<open>Replacing the columns of one table.\<close>

lemma all_columns_update:
  assumes "all_columns P st" and "st s0 = Some tm"
    and "\<And>c. c \<in> set cols' \<Longrightarrow> P s0 t0 c"
  shows "all_columns P (st(s0 \<mapsto> AList.update t0 cols' tm))"
proof -
  have "P s t c"
    if "(st(s0 \<mapsto> AList.update t0 cols' tm)) s = Some tables"
      and "map_of tables t = Some cols" and "c \<in> set cols" for s tables t cols c
  proof (cases "s = s0")
    case False
    with that assms(1) show ?thesis by (auto dest: all_columnsD)
  next
    case s: True
    with that(1) have tables: "tables = AList.update t0 cols' tm" by simp
    show ?thesis
    proof (cases "t = t0")
      case True
      with that(2,3) tables s assms(3) show ?thesis by (simp add: update_conv')
    next
      case False
      with that(2) tables have "map_of tm t = Some cols" by (simp add: update_conv')
      with assms(1,2) s that(3) show ?thesis by (auto dest: all_columnsD)
    qed
  qed
  then show ?thesis unfolding all_columns_def by blast
qed

lemma all_columns_add_column:
  assumes "add_column f st row = Inr st'" and "all_columns P st"
    and "\<And>col. toDBColumn row = Inr col \<Longrightarrow> f (c_TableSchema row) (c_TableName row) \<Longrightarrow>
           P (c_TableSchema row) (c_TableName row) col"
  shows "all_columns P st'"
proof (cases "f (c_TableSchema row) (c_TableName row)")
  case False
  with assms(1,2) show ?thesis by (simp add: add_column_def)
next
  case True
  show ?thesis
  proof (cases "st (c_TableSchema row)")
    case None
    with True assms(1,2) show ?thesis by (simp add: add_column_def)
  next
    case (Some tm)
    show ?thesis
    proof (cases "map_of tm (c_TableName row)")
      case None
      with True Some assms(1,2) show ?thesis by (simp add: add_column_def)
    next
      case cols: (Some cols)
      show ?thesis
      proof (cases "toDBColumn row")
        case (Inl p)
        with True Some cols assms(1) show ?thesis by (simp add: add_column_def)
      next
        case (Inr col)
        with True Some cols assms(1)
        have st': "st' = st(c_TableSchema row \<mapsto> AList.update (c_TableName row) (cols @ [col]) tm)"
          by (simp add: add_column_def)
        have "P (c_TableSchema row) (c_TableName row) c" if "c \<in> set (cols @ [col])" for c
          using that assms(2,3) Some cols Inr True by (auto dest: all_columnsD)
        with assms(2) Some show ?thesis
          unfolding st' by (rule all_columns_update)
      qed
    qed
  qed
qed

lemma all_columns_add_columns:
  assumes "add_columns f st rows = Inr st'" and "all_columns P st"
    and "\<And>row col. row \<in> set rows \<Longrightarrow> toDBColumn row = Inr col \<Longrightarrow>
           f (c_TableSchema row) (c_TableName row) \<Longrightarrow> P (c_TableSchema row) (c_TableName row) col"
  shows "all_columns P st'"
  using assms
proof (induction rows arbitrary: st)
  case Nil
  then show ?case by simp
next
  case (Cons row rows)
  from Cons.prems(1) obtain st1 where st1: "add_column f st row = Inr st1"
    and rest: "add_columns f st1 rows = Inr st'"
    by (auto split: sum.splits)
  have "all_columns P st1"
    by (rule all_columns_add_column [OF st1 Cons.prems(2)]) (simp add: Cons.prems(3))
  from Cons.IH [OF rest this] Cons.prems(3) show ?case by simp
qed

lemma all_columns_map:
  assumes "all_columns P st" and "st s0 = Some tm" and "map_of tm t0 = Some cols"
    and "\<And>c. c \<in> set cols \<Longrightarrow> P s0 t0 c \<Longrightarrow> Q s0 t0 (g c)"
    and "\<And>s t c. P s t c \<Longrightarrow> Q s t c"
  shows "all_columns Q (st(s0 \<mapsto> AList.update t0 (map g cols) tm))"
proof (rule all_columns_update)
  show "all_columns Q st"
    using assms(1,5) unfolding all_columns_def by blast
  show "st s0 = Some tm" by fact
  fix c
  assume "c \<in> set (map g cols)"
  then obtain c0 where "c0 \<in> set cols" and "c = g c0" by auto
  with assms(1,2,3,4) show "Q s0 t0 c" by (auto dest: all_columnsD)
qed

lemma all_columns_mark_primary_key:
  assumes "all_columns P st"
    and "\<And>c. P (pk_SchemaName pk) (pk_TableName pk) c \<Longrightarrow>
           f (pk_SchemaName pk) (pk_TableName pk) \<Longrightarrow> pk_ColumnName pk = Name c \<Longrightarrow>
           Q (pk_SchemaName pk) (pk_TableName pk) (c\<lparr>IsPrimaryKey := True\<rparr>)"
    and "\<And>s t c. P s t c \<Longrightarrow> Q s t c"
  shows "all_columns Q (mark_primary_key f st pk)"
proof -
  have weak: "all_columns Q st"
    using assms(1,3) unfolding all_columns_def by blast
  show ?thesis
  proof (cases "f (pk_SchemaName pk) (pk_TableName pk)")
    case False
    with weak show ?thesis by (simp add: mark_primary_key_def)
  next
    case True
    show ?thesis
    proof (cases "st (pk_SchemaName pk)")
      case None
      with True weak show ?thesis by (simp add: mark_primary_key_def)
    next
      case (Some tm)
      show ?thesis
      proof (cases "map_of tm (pk_TableName pk)")
        case None
        with True Some weak show ?thesis by (simp add: mark_primary_key_def)
      next
        case cols: (Some cols)
        have "all_columns Q (st(pk_SchemaName pk \<mapsto>
                 AList.update (pk_TableName pk)
                   (map (\<lambda>col. if pk_ColumnName pk \<noteq> Name col then col
                               else col\<lparr>IsPrimaryKey := True\<rparr>) cols) tm))"
          by (rule all_columns_map [OF assms(1) Some cols]) (auto simp: assms(2,3) True)
        with True Some cols show ?thesis by (simp add: mark_primary_key_def)
      qed
    qed
  qed
qed

lemma all_columns_mark_foreign_key:
  assumes "all_columns P st"
    and "\<And>c. P (fk_SchemaName fk) (fk_TableName fk) c \<Longrightarrow>
           f (fk_SchemaName fk) (fk_TableName fk) \<Longrightarrow> fk_ColumnName fk = Name c \<Longrightarrow>
           Q (fk_SchemaName fk) (fk_TableName fk) (c\<lparr>IsForeignKey := True, ForeignKey := Some fk\<rparr>)"
    and "\<And>s t c. P s t c \<Longrightarrow> Q s t c"
  shows "all_columns Q (mark_foreign_key f st fk)"
proof -
  have weak: "all_columns Q st"
    using assms(1,3) unfolding all_columns_def by blast
  show ?thesis
  proof (cases "f (fk_SchemaName fk) (fk_TableName fk)")
    case False
    with weak show ?thesis by (simp add: mark_foreign_key_def)
  next
    case True
    show ?thesis
    proof (cases "st (fk_SchemaName fk)")
      case None
      with True weak show ?thesis by (simp add: mark_foreign_key_def)
    next
      case (Some tm)
      show ?thesis
      proof (cases "map_of tm (fk_TableName fk)")
        case None
        with True Some weak show ?thesis by (simp add: mark_foreign_key_def)
      next
        case cols: (Some cols)
        have "all_columns Q (st(fk_SchemaName fk \<mapsto>
                 AList.update (fk_TableName fk)
                   (map (\<lambda>col. if fk_ColumnName fk \<noteq> Name col then col
                               else col\<lparr>IsForeignKey := True, ForeignKey := Some fk\<rparr>) cols) tm))"
          by (rule all_columns_map [OF assms(1) Some cols]) (auto simp: assms(2,3) True)
        with True Some cols show ?thesis by (simp add: mark_foreign_key_def)
      qed
    qed
  qed
qed

lemma all_columns_mark_primary_keys:
  assumes "all_columns P st"
    and "\<And>pk s t c. P s t c \<Longrightarrow> P s t (c\<lparr>IsPrimaryKey := True\<rparr>)"
  shows "all_columns P (foldl (mark_primary_key f) st pks)"
  using assms(1)
proof (induction pks arbitrary: st)
  case Nil
  then show ?case by simp
next
  case (Cons pk pks)
  have "all_columns P (mark_primary_key f st pk)"
    by (rule all_columns_mark_primary_key [OF Cons.prems]) (simp_all add: assms(2))
  then show ?case by (simp add: Cons.IH)
qed

lemma all_columns_mark_foreign_keys:
  assumes "all_columns P st"
    and "\<And>fk c. fk \<in> set fks \<Longrightarrow> P (fk_SchemaName fk) (fk_TableName fk) c \<Longrightarrow>
           f (fk_SchemaName fk) (fk_TableName fk) \<Longrightarrow> fk_ColumnName fk = Name c \<Longrightarrow>
           P (fk_SchemaName fk) (fk_TableName fk) (c\<lparr>IsForeignKey := True, ForeignKey := Some fk\<rparr>)"
  shows "all_columns P (foldl (mark_foreign_key f) st fks)"
  using assms
proof (induction fks arbitrary: st)
  case Nil
  then show ?case by simp
next
  case (Cons fk fks)
  have "all_columns P (mark_foreign_key f st fk)"
    by (rule all_columns_mark_foreign_key [OF Cons.prems(1)]) (simp_all add: Cons.prems(2))
  from Cons.IH [OF this] Cons.prems(2) show ?case by simp
qed

lemma toDBColumn_fields:
  assumes "toDBColumn row = Inr col"
  shows "Name col = c_ColumnName row" and "\<not> IsPrimaryKey col" and "\<not> IsForeignKey col"
    and "ForeignKey col = None"
  using assms
  by (auto simp: toDBColumn_def Let_def split: if_splits sum.splits)

lemma all_columns_load_columns:
  assumes "load_columns d names f = Inr st" and "columns_Query d = Inr rows"
    and "\<And>row col. row \<in> set rows \<Longrightarrow> toDBColumn row = Inr col \<Longrightarrow>
           f (c_TableSchema row) (c_TableName row) \<Longrightarrow> P (c_TableSchema row) (c_TableName row) col"
  shows "all_columns P st"
proof -
  from load_columns_tables [OF assms(1)] obtain tables where "tables_Query d = Inr tables" ..
  from load_columns_Inr [OF assms(1) this] assms(2)
  have "add_columns f (seed_schemas f names tables) rows = Inr st" by auto
  from this all_columns_seed_schemas assms(3) show ?thesis
    by (rule all_columns_add_columns)
qed

lemma load_columns_columns:
  assumes "load_columns d names f = Inr st"
  shows "\<exists>rows. columns_Query d = Inr rows"
  using assms
  by (cases "sql_Open d"; cases "tables_Query d"; cases "columns_Query d")
     (simp_all add: load_columns_def)

text \<open>The names of the columns of a table are names of column rows of that table.\<close>

lemma load_schemas_column_names:
  assumes "load_schemas d names f = Inr st" and "columns_Query d = Inr rows"
  shows "all_columns (\<lambda>s t c. \<exists>row\<in>set rows. c_TableSchema row = s \<and> c_TableName row = t \<and>
                                 c_ColumnName row = Name c) st"
    (is "all_columns ?P st")
proof -
  from load_schemas_Inr [OF assms(1)] obtain st1 pks fks where
    st1: "load_columns d names f = Inr st1"
    and st: "st = foldl (mark_foreign_key f) (foldl (mark_primary_key f) st1 pks) fks"
    by blast
  have "all_columns ?P st1"
    by (rule all_columns_load_columns [OF st1 assms(2)])
       (metis toDBColumn_fields(1))
  then have "all_columns ?P (foldl (mark_primary_key f) st1 pks)"
    by (rule all_columns_mark_primary_keys) simp
  then show ?thesis
    unfolding st by (rule all_columns_mark_foreign_keys) simp
qed

text \<open>A foreign key on a column is a row that names the column and passed the filter.\<close>

lemma load_schemas_foreign_keys:
  assumes "load_schemas d names f = Inr st" and "queryForeignKeys d = Inr fks"
  shows "all_columns (\<lambda>s t c. \<forall>fk. ForeignKey c = Some fk \<longrightarrow>
            IsForeignKey c \<and> fk_SchemaName fk = s \<and> fk_TableName fk = t \<and>
            fk_ColumnName fk = Name c \<and> f s t \<and> fk \<in> set fks) st"
    (is "all_columns ?P st")
proof -
  from load_schemas_Inr [OF assms(1)] assms(2) obtain st1 pks where
    st1: "load_columns d names f = Inr st1"
    and st: "st = foldl (mark_foreign_key f) (foldl (mark_primary_key f) st1 pks) fks"
    by auto
  from load_columns_columns [OF st1] obtain rows where rows: "columns_Query d = Inr rows" ..
  have "all_columns ?P st1"
    by (rule all_columns_load_columns [OF st1 rows]) (simp add: toDBColumn_fields(4))
  then have "all_columns ?P (foldl (mark_primary_key f) st1 pks)"
    by (rule all_columns_mark_primary_keys) simp
  then show ?thesis
    unfolding st by (rule all_columns_mark_foreign_keys) simp
qed

lemma columnMap_None_aux:
  "n \<notin> Name ` set table \<Longrightarrow> foldl (\<lambda>m c. m(Name c \<mapsto> c)) m0 table n = m0 n"
proof (induction table arbitrary: m0)
  case Nil
  then show ?case by simp
next
  case (Cons c table)
  from Cons.prems have "n \<notin> Name ` set table" and "n \<noteq> Name c" by auto
  from Cons.IH [OF this(1), of "m0(Name c \<mapsto> c)"] this(2) show ?case
    by (simp only: foldl.simps fun_upd_apply if_False)
qed

lemma columnMap_None: "n \<notin> Name ` set table \<Longrightarrow> columnMap table n = None"
  unfolding columnMap_def by (simp add: columnMap_None_aux)

lemma resolve_columns_None:
  "n \<in> set cs \<Longrightarrow> m n = None \<Longrightarrow> resolve_columns m acc cs = None"
  by (induction cs arbitrary: acc) (auto split: option.splits)

lemma add_index_unknown_column:
  assumes "all_columns (\<lambda>s t c. \<exists>row\<in>set rows. c_TableSchema row = s \<and> c_TableName row = t \<and>
                                 c_ColumnName row = Name c) st"
    and "n \<in> set (ir_Columns r)"
    and "\<forall>row\<in>set rows. c_TableSchema row = ir_SchemaName r \<and> c_TableName row = ir_TableName r \<longrightarrow>
           c_ColumnName row \<noteq> n"
  shows "add_index f st ix r = ix"
proof (cases "st (ir_SchemaName r)")
  case None
  then show ?thesis by (simp add: add_index_def)
next
  case (Some tm)
  show ?thesis
  proof (cases "map_of tm (ir_TableName r)")
    case None
    with Some show ?thesis by (simp add: add_index_def)
  next
    case cols: (Some cols)
    have "n \<notin> Name ` set cols"
    proof
      assume "n \<in> Name ` set cols"
      then obtain c where "c \<in> set cols" and "n = Name c" by auto
      with all_columnsD [OF assms(1) Some cols, of c] assms(3) show False by auto
    qed
    then have "columnMap cols n = None" by (rule columnMap_None)
    with assms(2) have "resolve_columns (columnMap cols) [] (ir_Columns r) = None"
      by (rule resolve_columns_None)
    with Some cols show ?thesis by (simp add: add_index_def)
  qed
qed

subsection \<open>Indexes with duplicate or unknown columns\<close>

lemma parse_same_index_results:
  assumes "queryIndexes d = Inr (xs @ r # ys)"
    and "queryIndexes (d\<lparr>indexes_Query := q\<rparr>) = Inr (xs @ ys)"
    and "\<And>st ix. load_schemas d names f = Inr st \<Longrightarrow> add_index f st ix r = ix"
  shows "parse ord (d\<lparr>indexes_Query := q\<rparr>) names f = parse ord d names f"
proof (rule parse_cong)
  show "load_schemas (d\<lparr>indexes_Query := q\<rparr>) names f = load_schemas d names f"
    by (rule load_schemas_cong) (simp_all add: load_columns_simps query_simps)
next
  fix st
  assume "load_schemas d names f = Inr st"
  from assms(3) [OF this]
  have "foldl (add_index f st) Map.empty (xs @ r # ys)
          = foldl (add_index f st) Map.empty (xs @ ys)"
    by simp
  then show "map_sum id (foldl (add_index f st) Map.empty) (queryIndexes (d\<lparr>indexes_Query := q\<rparr>))
       = map_sum id (foldl (add_index f st) Map.empty) (queryIndexes d)"
    by (simp add: assms(1,2))
qed (simp_all add: queryEnums_simps)

text \<open>
  C3, as the code has it. Let \<open>r\<close> be one of the index rows that \<^verbatim>\<open>queryIndexes\<close> returns to
  \<^verbatim>\<open>parse\<close>. When \<open>r\<close> names a column for which the column query returned no row of the
  table of \<open>r\<close>, the row is passed over as a whole: \<^verbatim>\<open>parse\<close> ends exactly as it does on
  answers whose index rows are the same without \<open>r\<close>, so no part of \<open>r\<close> is recorded.
\<close>

theorem index_row_with_unknown_column_omitted:
  assumes "queryIndexes d = Inr (xs @ r # ys)"
    and "queryIndexes (d\<lparr>indexes_Query := q\<rparr>) = Inr (xs @ ys)"
    and "columns_Query d = Inr columns"
    and "n \<in> set (ir_Columns r)"
    and "\<forall>c\<in>set columns. c_TableSchema c = ir_SchemaName r \<and> c_TableName c = ir_TableName r \<longrightarrow>
           c_ColumnName c \<noteq> n"
  shows "parse ord (d\<lparr>indexes_Query := q\<rparr>) schemaNames filterTables
           = parse ord d schemaNames filterTables"
proof (rule parse_same_index_results [OF assms(1,2)])
  fix st ix
  assume "load_schemas d schemaNames filterTables = Inr st"
  from load_schemas_column_names [OF this assms(3)] assms(4,5)
  show "add_index filterTables st ix r = ix"
    by (rule add_index_unknown_column)
qed

theorem index_row_with_unknown_column_omitted_witness:
  "queryIndexes bad_index_db =
     Inr ([] @ \<lparr> ir_SchemaName = ''public'', ir_TableName = ''a'', ir_IndexName = ''a_idx'',
                  ir_Columns = [''id'', ''nope''] \<rparr> # []) \<and>
   parse in_order (bad_index_db\<lparr>indexes_Query := Inr no_rows\<rparr>) [''public''] all_tables
     = parse in_order bad_index_db [''public''] all_tables \<and>
   parse in_order bad_index_db [''public''] all_tables =
   Inr \<lparr> Schemas =
     [\<lparr> sc_Name = ''public'',
        sc_Tables =
          [\<lparr> tb_Name = ''a'', tb_Columns = [text_Column ''public'' ''a'' ''id''],
             tb_Indexes = [] \<rparr>,
           \<lparr> tb_Name = ''b'',
             tb_Columns = [text_Column ''public'' ''b'' ''id'', text_Column ''public'' ''b'' ''aid''],
             tb_Indexes = [] \<rparr>],
        sc_Enums = [] \<rparr>] \<rparr>"
proof -
  let ?r = "\<lparr> ir_SchemaName = ''public'', ir_TableName = ''a'', ir_IndexName = ''a_idx'',
              ir_Columns = [''id'', ''nope''] \<rparr>"
  have i: "queryIndexes bad_index_db = Inr ([] @ ?r # [])"
    by code_simp
  have j: "queryIndexes (bad_index_db\<lparr>indexes_Query := Inr no_rows\<rparr>) = Inr ([] @ [])"
    by code_simp
  have c: "columns_Query bad_index_db =
             Inr [text_column ''public'' ''a'' ''id'', text_column ''public'' ''b'' ''id'',
                  text_column ''public'' ''b'' ''aid'']"
    by (simp add: bad_index_db_def sample_db_def)
  have n: "''nope'' \<in> set (ir_Columns ?r)"
    by simp
  have u: "\<forall>c\<in>set [text_column ''public'' ''a'' ''id'', text_column ''public'' ''b'' ''id'',
                     text_column ''public'' ''b'' ''aid''].
             c_TableSchema c = ir_SchemaName ?r \<and> c_TableName c = ir_TableName ?r \<longrightarrow>
             c_ColumnName c \<noteq> ''nope''"
    by (simp add: text_column_def)
  have m: "parse in_order bad_index_db [''public''] all_tables =
   Inr \<lparr> Schemas =
     [\<lparr> sc_Name = ''public'',
        sc_Tables =
          [\<lparr> tb_Name = ''a'', tb_Columns = [text_Column ''public'' ''a'' ''id''],
             tb_Indexes = [] \<rparr>,
           \<lparr> tb_Name = ''b'',
             tb_Columns = [text_Column ''public'' ''b'' ''id'', text_Column ''public'' ''b'' ''aid''],
             tb_Indexes = [] \<rparr>],
        sc_Enums = [] \<rparr>] \<rparr>"
    by code_simp
  from index_row_with_unknown_column_omitted [OF i j c n u, of in_order "[''public'']" all_tables] i m
  show ?thesis by blast
qed

text \<open>
  C3 as stated fails for a duplicate: the index row \<^verbatim>\<open>a_idx\<close> on \<^verbatim>\<open>a\<close> with the columns
  \<^verbatim>\<open>id,id\<close> is recorded, with the column twice.
\<close>

theorem duplicate_index_column_kept:
  "parse in_order dup_index_db [''public''] all_tables =
   Inr \<lparr> Schemas =
     [\<lparr> sc_Name = ''public'',
        sc_Tables =
          [\<lparr> tb_Name = ''a'', tb_Columns = [text_Column ''public'' ''a'' ''id''],
             tb_Indexes = [\<lparr> ix_Name = ''a_idx'',
                             ix_Columns = [text_Column ''public'' ''a'' ''id'',
                                           text_Column ''public'' ''a'' ''id''] \<rparr>] \<rparr>,
           \<lparr> tb_Name = ''b'',
             tb_Columns = [text_Column ''public'' ''b'' ''id'', text_Column ''public'' ''b'' ''aid''],
             tb_Indexes = [] \<rparr>],
        sc_Enums = [] \<rparr>] \<rparr>"
  by code_simp

subsection \<open>Foreign keys\<close>

text \<open>
  C4, as the code has it. A foreign key recorded on a column of the returned model is a
  row of the foreign-key query that passed the filter and names the schema, the table
  and the column it is recorded on, and the column has its foreign-key flag set: the
  referencing column is the column itself, present in its table. The referenced table
  and column are not looked up.
\<close>

theorem foreign_key_names_its_column:
  assumes "parse ord d schemaNames filterTables = Inr m"
    and "sc \<in> set (Schemas m)" and "tb \<in> set (sc_Tables sc)"
    and "c \<in> set (tb_Columns tb)" and "ForeignKey c = Some fk"
  shows "IsForeignKey c \<and> fk_SchemaName fk = sc_Name sc \<and> fk_TableName fk = tb_Name tb \<and>
         fk_ColumnName fk = Name c \<and> filterTables (sc_Name sc) (tb_Name tb) \<and>
         (\<exists>fks. queryForeignKeys d = Inr fks \<and> fk \<in> set fks)"
proof -
  from parse_tables_loaded [OF assms(1,2,3)] obtain st tables where
    st: "load_schemas d schemaNames filterTables = Inr st"
    and tables: "st (sc_Name sc) = Some tables"
    and cols: "map_of tables (tb_Name tb) = Some (tb_Columns tb)"
    by blast
  from load_schemas_Inr [OF st] obtain fks where fks: "queryForeignKeys d = Inr fks"
    by blast
  from all_columnsD [OF load_schemas_foreign_keys [OF st fks] tables cols assms(4)] assms(5) fks
  show ?thesis by blast
qed

theorem foreign_key_names_its_column_witness:
  "parse in_order fk_db [''public''] only_b =
   Inr \<lparr> Schemas =
     [\<lparr> sc_Name = ''public'',
        sc_Tables =
          [\<lparr> tb_Name = ''b'',
             tb_Columns = [text_Column ''public'' ''b'' ''id'',
                           (text_Column ''public'' ''b'' ''aid'')
                             \<lparr>IsForeignKey := True, ForeignKey := Some a_fk\<rparr>],
             tb_Indexes = [] \<rparr>],
        sc_Enums = [] \<rparr>] \<rparr> \<and>
   fk_SchemaName a_fk = ''public'' \<and> fk_TableName a_fk = ''b'' \<and>
   fk_ColumnName a_fk = Name (text_Column ''public'' ''b'' ''aid'') \<and>
   only_b ''public'' ''b'' \<and>
   (\<exists>fks. queryForeignKeys fk_db = Inr fks \<and> a_fk \<in> set fks)"
proof -
  let ?c = "(text_Column ''public'' ''b'' ''aid'')\<lparr>IsForeignKey := True, ForeignKey := Some a_fk\<rparr>"
  let ?tb = "\<lparr> tb_Name = ''b'', tb_Columns = [text_Column ''public'' ''b'' ''id'', ?c],
               tb_Indexes = [] \<rparr>"
  let ?sc = "\<lparr> sc_Name = ''public'', sc_Tables = [?tb], sc_Enums = [] \<rparr>"
  have m: "parse in_order fk_db [''public''] only_b = Inr \<lparr> Schemas = [?sc] \<rparr>"
    by code_simp
  have "IsForeignKey ?c \<and> fk_SchemaName a_fk = sc_Name ?sc \<and> fk_TableName a_fk = tb_Name ?tb \<and>
         fk_ColumnName a_fk = Name ?c \<and> only_b (sc_Name ?sc) (tb_Name ?tb) \<and>
         (\<exists>fks. queryForeignKeys fk_db = Inr fks \<and> a_fk \<in> set fks)"
    by (rule foreign_key_names_its_column [OF m]) simp_all
  with m show ?thesis by simp
qed

text \<open>
  C4 as stated fails for the referenced side: with \<^verbatim>\<open>public.a\<close> filtered out, the
  foreign key of \<^verbatim>\<open>b.aid\<close> is recorded although the model holds no table \<^verbatim>\<open>a\<close>.
\<close>

theorem dangling_foreign_key_kept:
  "parse in_order fk_db [''public''] only_b =
   Inr \<lparr> Schemas =
     [\<lparr> sc_Name = ''public'',
        sc_Tables =
          [\<lparr> tb_Name = ''b'',
             tb_Columns = [text_Column ''public'' ''b'' ''id'',
                           (text_Column ''public'' ''b'' ''aid'')
                             \<lparr>IsForeignKey := True, ForeignKey := Some a_fk\<rparr>],
             tb_Indexes = [] \<rparr>],
        sc_Enums = [] \<rparr>] \<rparr> \<and>
   fk_ForeignTableName a_fk = ''a'' \<and> fk_ForeignColumnName a_fk = ''id''"
  by code_simp

subsection \<open>Primary keys of the tables handed to the templates\<close>

text \<open>
  C8. In a table built for the templates from a table of a successfully built model, a
  column has its primary-key flag set if and only if it is in the table's PrimaryKeys
  list, and every column of that list is a column of the table.
\<close>

theorem primary_key_flag_matches_list:
  assumes "parse ord d schemaNames filterTables = Inr m"
    and "sc \<in> set (Schemas m)" and "tb \<in> set (sc_Tables sc)"
  shows "(\<forall>c\<in>set (dt_Columns (makeTable convertName convertType tb)).
            dc_IsPrimaryKey c \<longleftrightarrow> c \<in> set (dt_PrimaryKeys (makeTable convertName convertType tb))) \<and>
         set (dt_PrimaryKeys (makeTable convertName convertType tb))
           \<subseteq> set (dt_Columns (makeTable convertName convertType tb))"
  by (auto simp: makeTable_def Let_def)

theorem primary_key_flag_matches_list_witness:
  "parse in_order pk_db [''public''] all_tables =
     Inr \<lparr> Schemas =
       [\<lparr> sc_Name = ''public'',
          sc_Tables =
            [\<lparr> tb_Name = ''a'',
               tb_Columns = [(text_Column ''public'' ''a'' ''id'')\<lparr>IsPrimaryKey := True\<rparr>],
               tb_Indexes = [] \<rparr>,
             \<lparr> tb_Name = ''b'',
               tb_Columns = [text_Column ''public'' ''b'' ''id'',
                             text_Column ''public'' ''b'' ''aid''],
               tb_Indexes = [] \<rparr>],
          sc_Enums = [] \<rparr>] \<rparr> \<and>
   map dc_DBName (dt_PrimaryKeys (makeTable id (\<lambda>t nullable. t)
      \<lparr> tb_Name = ''a'',
        tb_Columns = [(text_Column ''public'' ''a'' ''id'')\<lparr>IsPrimaryKey := True\<rparr>],
        tb_Indexes = [] \<rparr>)) = [''id''] \<and>
   dc_IsPrimaryKey (makeColumn id (\<lambda>t nullable. t)
      ((text_Column ''public'' ''a'' ''id'')\<lparr>IsPrimaryKey := True\<rparr>)) \<and>
   makeColumn id (\<lambda>t nullable. t) ((text_Column ''public'' ''a'' ''id'')\<lparr>IsPrimaryKey := True\<rparr>)
     \<in> set (dt_PrimaryKeys (makeTable id (\<lambda>t nullable. t)
      \<lparr> tb_Name = ''a'',
        tb_Columns = [(text_Column ''public'' ''a'' ''id'')\<lparr>IsPrimaryKey := True\<rparr>],
        tb_Indexes = [] \<rparr>))"
proof -
  let ?c = "(text_Column ''public'' ''a'' ''id'')\<lparr>IsPrimaryKey := True\<rparr>"
  let ?a = "\<lparr> tb_Name = ''a'', tb_Columns = [?c], tb_Indexes = [] \<rparr>"
  let ?b = "\<lparr> tb_Name = ''b'',
               tb_Columns = [text_Column ''public'' ''b'' ''id'',
                             text_Column ''public'' ''b'' ''aid''],
               tb_Indexes = [] \<rparr>"
  let ?sc = "\<lparr> sc_Name = ''public'', sc_Tables = [?a, ?b], sc_Enums = [] \<rparr>"
  have m: "parse in_order pk_db [''public''] all_tables = Inr \<lparr> Schemas = [?sc] \<rparr>"
    by code_simp
  have k: "map dc_DBName (dt_PrimaryKeys (makeTable id (\<lambda>t nullable. t) ?a)) = [''id'']"
    by (simp add: makeTable_def makeColumn_def text_Column_def Let_def)
  have f: "dc_IsPrimaryKey (makeColumn id (\<lambda>t nullable. t) ?c)"
    by (simp add: makeColumn_def)
  have c: "makeColumn id (\<lambda>t nullable. t) ?c
             \<in> set (dt_Columns (makeTable id (\<lambda>t nullable. t) ?a))"
    by (simp add: makeTable_def Let_def)
  from primary_key_flag_matches_list [OF m, of ?sc ?a id "\<lambda>t nullable. t"] c f
  have "makeColumn id (\<lambda>t nullable. t) ?c
          \<in> set (dt_PrimaryKeys (makeTable id (\<lambda>t nullable. t) ?a))"
    by simp
  with m k f show ?thesis by simp
qed

subsection \<open>Schema prefixes of index rows\<close>

lemma index_row_cut:
  assumes "is_SchemaName s = ''public'' \<or> length (is_SchemaName s) + 1 \<le> length (is_TableName s)"
  shows "index_row s =
           Inr \<lparr> ir_SchemaName = is_SchemaName s,
                 ir_TableName = (if is_SchemaName s = ''public'' then is_TableName s
                                 else drop (length (is_SchemaName s) + 1) (is_TableName s)),
                 ir_IndexName = is_IndexName s,
                 ir_Columns = split CHR '','' (is_cs s) \<rparr>"
  using assms by (auto simp: index_row_def slice_from_def Let_def)

lemma index_row_short:
  assumes "is_SchemaName s \<noteq> ''public''"
    and "length (is_TableName s) < length (is_SchemaName s) + 1"
  shows "index_row s = Inl (Panic SliceBoundsOutOfRange)"
  using assms by (simp add: index_row_def slice_from_def Let_def)

lemma indexes_loop_all_cut:
  assumes "\<forall>s\<in>set ss. is_SchemaName s = ''public'' \<or>
             length (is_SchemaName s) + 1 \<le> length (is_TableName s)"
  shows "indexes_loop (map Inr ss) =
           Inr (map (\<lambda>s. \<lparr> ir_SchemaName = is_SchemaName s,
                             ir_TableName = (if is_SchemaName s = ''public'' then is_TableName s
                                             else drop (length (is_SchemaName s) + 1) (is_TableName s)),
                             ir_IndexName = is_IndexName s,
                             ir_Columns = split CHR '','' (is_cs s) \<rparr>) ss)"
  using assms
proof (induction ss)
  case Nil
  then show ?case by simp
next
  case (Cons s ss)
  from Cons.prems have "is_SchemaName s = ''public'' \<or>
             length (is_SchemaName s) + 1 \<le> length (is_TableName s)"
    by simp
  from index_row_cut [OF this] Cons show ?case by simp
qed

text \<open>
  C10. \<^verbatim>\<open>queryIndexes\<close> handles every scanned row in turn. A row of the \<^verbatim>\<open>public\<close> schema
  keeps its table name; a row of another schema loses the first \<^verbatim>\<open>len(SchemaName)+1\<close>
  bytes of its table name. When every scanned row is of \<^verbatim>\<open>public\<close> or has a table name of
  at least that length, the function returns the rows so cut, in order. At the first row
  of another schema whose table name is shorter, the slice is out of range and
  \<^verbatim>\<open>queryIndexes\<close> ends in that panic, whatever rows follow.
\<close>

theorem queryIndexes_schema_prefix:
  assumes "indexes_Query d = Inr rows"
  shows "(scans rows = map Inr ss \<and>
          (\<forall>s\<in>set ss. is_SchemaName s = ''public'' \<or>
                length (is_SchemaName s) + 1 \<le> length (is_TableName s)) \<longrightarrow>
            queryIndexes d =
              Inr (map (\<lambda>s. \<lparr> ir_SchemaName = is_SchemaName s,
                                ir_TableName =
                                  (if is_SchemaName s = ''public'' then is_TableName s
                                   else drop (length (is_SchemaName s) + 1) (is_TableName s)),
                                ir_IndexName = is_IndexName s,
                                ir_Columns = split CHR '','' (is_cs s) \<rparr>) ss)) \<and>
         (scans rows = map Inr ss @ Inr s # rest \<and>
          (\<forall>s\<in>set ss. is_SchemaName s = ''public'' \<or>
                length (is_SchemaName s) + 1 \<le> length (is_TableName s)) \<and>
          is_SchemaName s \<noteq> ''public'' \<and>
          length (is_TableName s) < length (is_SchemaName s) + 1 \<longrightarrow>
            queryIndexes d = Inl (Panic SliceBoundsOutOfRange))"
proof (intro conjI impI)
  assume "scans rows = map Inr ss \<and>
          (\<forall>s\<in>set ss. is_SchemaName s = ''public'' \<or>
                length (is_SchemaName s) + 1 \<le> length (is_TableName s))"
  then show "queryIndexes d =
              Inr (map (\<lambda>s. \<lparr> ir_SchemaName = is_SchemaName s,
                                ir_TableName =
                                  (if is_SchemaName s = ''public'' then is_TableName s
                                   else drop (length (is_SchemaName s) + 1) (is_TableName s)),
                                ir_IndexName = is_IndexName s,
                                ir_Columns = split CHR '','' (is_cs s) \<rparr>) ss)"
    using assms indexes_loop_all_cut [of ss]
    by (simp add: queryIndexes_def deferred_Close_def)
next
  assume a: "scans rows = map Inr ss @ Inr s # rest \<and>
          (\<forall>s\<in>set ss. is_SchemaName s = ''public'' \<or>
                length (is_SchemaName s) + 1 \<le> length (is_TableName s)) \<and>
          is_SchemaName s \<noteq> ''public'' \<and>
          length (is_TableName s) < length (is_SchemaName s) + 1"
  then have "index_row s = Inl (Panic SliceBoundsOutOfRange)"
    by (simp add: index_row_short)
  then have "indexes_loop (Inr s # rest) = Inl (Panic SliceBoundsOutOfRange)"
    by simp
  with a indexes_loop_all_cut [of ss]
  have "indexes_loop (scans rows) = Inl (Panic SliceBoundsOutOfRange)"
    by (simp add: indexes_loop_append)
  with assms show "queryIndexes d = Inl (Panic SliceBoundsOutOfRange)"
    by (simp add: queryIndexes_def deferred_Close_def)
qed

theorem queryIndexes_schema_prefix_witness:
  "queryIndexes (sample_db\<lparr>indexes_Query := Inr (Rows (map Inr [app_users_scan, public_a_scan]) None)\<rparr>)
     = Inr [\<lparr> ir_SchemaName = ''app'', ir_TableName = ''users'', ir_IndexName = ''users_pkey'',
               ir_Columns = [''id'', ''email''] \<rparr>,
            \<lparr> ir_SchemaName = ''public'', ir_TableName = ''a'', ir_IndexName = ''a_idx'',
               ir_Columns = [''id''] \<rparr>] \<and>
   queryIndexes (sample_db\<lparr>indexes_Query :=
       Inr (Rows (map Inr [public_a_scan] @ Inr app_t_scan # [Inr app_users_scan]) None)\<rparr>)
     = Inl (Panic SliceBoundsOutOfRange)"
proof -
  let ?d1 = "sample_db\<lparr>indexes_Query := Inr (Rows (map Inr [app_users_scan, public_a_scan]) None)\<rparr>"
  let ?d2 = "sample_db\<lparr>indexes_Query :=
       Inr (Rows (map Inr [public_a_scan] @ Inr app_t_scan # [Inr app_users_scan]) None)\<rparr>"
  have 1: "queryIndexes ?d1
     = Inr (map (\<lambda>s. \<lparr> ir_SchemaName = is_SchemaName s,
                                ir_TableName =
                                  (if is_SchemaName s = ''public'' then is_TableName s
                                   else drop (length (is_SchemaName s) + 1) (is_TableName s)),
                                ir_IndexName = is_IndexName s,
                                ir_Columns = split CHR '','' (is_cs s) \<rparr>) [app_users_scan, public_a_scan])"
    using queryIndexes_schema_prefix
            [of ?d1 "Rows (map Inr [app_users_scan, public_a_scan]) None"
                "[app_users_scan, public_a_scan]"]
    by (simp add: app_users_scan_def public_a_scan_def)
  have 2: "queryIndexes ?d2 = Inl (Panic SliceBoundsOutOfRange)"
    using queryIndexes_schema_prefix
            [of ?d2 "Rows (map Inr [public_a_scan] @ Inr app_t_scan # [Inr app_users_scan]) None"
                "[public_a_scan]" app_t_scan "[Inr app_users_scan]"]
    by (simp add: app_t_scan_def public_a_scan_def)
  from 1 2 show ?thesis
    by (simp add: app_users_scan_def public_a_scan_def)
qed

subsection \<open>An index row with a bare table name\<close>

text \<open>
  C6. With the schemas \<^verbatim>\<open>public\<close> and \<^verbatim>\<open>app\<close>, the pair \<^verbatim>\<open>(app, t)\<close> is not in the seeded
  model of the small database. On the index row scanned as schema \<^verbatim>\<open>app\<close>, table \<^verbatim>\<open>t\<close>,
  \<^verbatim>\<open>parse\<close> does not skip the row: it ends in the panic of the slice in \<^verbatim>\<open>queryIndexes\<close>,
  while the same run without the row returns a model.
\<close>

theorem unseeded_index_row_panics:
  "\<not> has_table (seed_schemas all_tables [''public'', ''app'']
                   [\<lparr> t_TableSchema = ''public'', t_TableName = ''a'' \<rparr>,
                    \<lparr> t_TableSchema = ''public'', t_TableName = ''b'' \<rparr>]) ''app'' ''t'' \<and>
   parse in_order short_name_db [''public'', ''app''] all_tables
     = Inl (Panic SliceBoundsOutOfRange) \<and>
   parse in_order (short_name_db\<lparr>indexes_Query := Inr no_rows\<rparr>) [''public'', ''app''] all_tables =
   Inr \<lparr> Schemas =
     [\<lparr> sc_Name = ''public'',
        sc_Tables =
          [\<lparr> tb_Name = ''a'', tb_Columns = [text_Column ''public'' ''a'' ''id''],
             tb_Indexes = [] \<rparr>,
           \<lparr> tb_Name = ''b'',
             tb_Columns = [text_Column ''public'' ''b'' ''id'', text_Column ''public'' ''b'' ''aid''],
             tb_Indexes = [] \<rparr>],
        sc_Enums = [] \<rparr>,
      \<lparr> sc_Name = ''app'', sc_Tables = [], sc_Enums = [] \<rparr>] \<rparr>"
  by code_simp

subsection \<open>The order of map iteration\<close>

lemma range_map_valid:
  assumes "set (v (map fst m)) \<subseteq> set (map fst m)"
  shows "range_map v m = map (\<lambda>k. (k, the (map_of m k))) (v (map fst m))"
proof -
  have "List.map_filter (\<lambda>k. map_option (Pair k) (map_of m k)) ks
          = map (\<lambda>k. (k, the (map_of m k))) ks"
    if "set ks \<subseteq> set (map fst m)" for ks
    using that
  proof (induction ks)
    case Nil
    then show ?case by simp
  next
    case (Cons k ks)
    from Cons.prems have "k \<in> fst ` set m" by simp
    then obtain c where "map_of m k = Some c"
      by (metis map_of_eq_None_iff not_None_eq)
    with Cons show ?case by simp
  qed
  from this [OF assms] show ?thesis by (simp add: range_map_def)
qed

lemma mset_range_map:
  assumes "mset (v (map fst m)) = mset (map fst m)"
  shows "mset (range_map v m) = image_mset (\<lambda>k. (k, the (map_of m k))) (mset (map fst m))"
proof -
  from mset_eq_setD [OF assms] have "set (v (map fst m)) \<subseteq> set (map fst m)"
    by simp
  then have "range_map v m = map (\<lambda>k. (k, the (map_of m k))) (v (map fst m))"
    by (rule range_map_valid)
  then have "mset (range_map v m)
               = image_mset (\<lambda>k. (k, the (map_of m k))) (mset (v (map fst m)))"
    by (simp only: mset_map)
  with assms show ?thesis by (simp only:)
qed

lemma foldl_snoc_index:
  "foldl (\<lambda>ixs (iname, columns). ixs @ [\<lparr> ix_Name = iname, ix_Columns = columns \<rparr>]) acc kvs
     = acc @ map (\<lambda>(iname, columns). \<lparr> ix_Name = iname, ix_Columns = columns \<rparr>) kvs"
  by (induction kvs arbitrary: acc) auto

lemma mset_make_indexes:
  assumes "mset (v (map fst index)) = mset (map fst index)"
  shows "mset (make_indexes v index) = canon_indexes index"
proof -
  have "mset (make_indexes v index)
          = image_mset (\<lambda>(iname, columns). \<lparr> ix_Name = iname, ix_Columns = columns \<rparr>)
              (mset (range_map v index))"
    by (simp add: make_indexes_def foldl_snoc_index)
  also have "\<dots> = canon_indexes index"
    using mset_range_map [of v index] assms
    by (simp add: canon_indexes_def image_mset.compositionality comp_def)
  finally show ?thesis .
qed

lemma map_of_foldl_update:
  "map_of (foldl (\<lambda>dbt (k, c). AList.update k (g k c) dbt) dbt0 (map (\<lambda>k. (k, h k)) ks)) k
     = (if k \<in> set ks then Some (g k (h k)) else map_of dbt0 k)"
proof (induction ks arbitrary: dbt0)
  case Nil
  then show ?case by simp
next
  case (Cons a ks)
  show ?case
    by (simp add: Cons.IH update_conv')
qed

lemma distinct_foldl_update:
  "distinct (map fst dbt0) \<Longrightarrow>
   distinct (map fst (foldl (\<lambda>dbt (k, c). AList.update k (g k c) dbt) dbt0 kvs))"
proof (induction kvs arbitrary: dbt0)
  case Nil
  then show ?case by simp
next
  case (Cons kv kvs)
  obtain k c where kv: "kv = (k, c)" by (cases kv)
  from Cons.prems have "distinct (map fst (AList.update k (g k c) dbt0))"
    by (rule distinct_update)
  from Cons.IH [OF this] show ?case by (simp add: kv)
qed

lemma make_dbtables_map_of:
  assumes "set (v (map fst tables)) = set (map fst tables)"
  shows "map_of (make_dbtables v tables) k
           = map_option (\<lambda>cols. \<lparr> tb_Name = k, tb_Columns = cols, tb_Indexes = [] \<rparr>)
               (map_of tables k)"
proof -
  from assms have "set (v (map fst tables)) \<subseteq> set (map fst tables)" by simp
  then have r: "range_map v tables = map (\<lambda>k. (k, the (map_of tables k))) (v (map fst tables))"
    by (rule range_map_valid)
  have "map_of (make_dbtables v tables) k
          = (if k \<in> set (v (map fst tables))
             then Some \<lparr> tb_Name = k, tb_Columns = the (map_of tables k), tb_Indexes = [] \<rparr>
             else None)"
    unfolding make_dbtables_def r
    using map_of_foldl_update
            [of "\<lambda>k c. \<lparr> tb_Name = k, tb_Columns = c, tb_Indexes = [] \<rparr>" "[]"
                "\<lambda>k. the (map_of tables k)" "v (map fst tables)" k]
    by simp
  also have "\<dots> = map_option (\<lambda>cols. \<lparr> tb_Name = k, tb_Columns = cols, tb_Indexes = [] \<rparr>)
               (map_of tables k)"
  proof (cases "map_of tables k")
    case None
    then have "k \<notin> set (map fst tables)" by (simp add: map_of_eq_None_iff)
    with None assms show ?thesis by simp
  next
    case (Some cols)
    then have "k \<in> set (map fst tables)"
      by (metis map_of_eq_None_iff option.distinct(1) set_map)
    with Some assms show ?thesis by simp
  qed
  finally show ?thesis .
qed

lemma make_dbtables_distinct: "distinct (map fst (make_dbtables v tables))"
  unfolding make_dbtables_def by (rule distinct_foldl_update) simp

lemma make_dbtables_keys:
  assumes "set (v (map fst tables)) = set (map fst tables)"
  shows "set (map fst (make_dbtables v tables)) = set (map fst tables)"
proof -
  have "k \<in> fst ` set (make_dbtables v tables) \<longleftrightarrow> k \<in> fst ` set tables" for k
    using make_dbtables_map_of [of v tables k] assms
          map_of_eq_None_iff [of "make_dbtables v tables" k]
          map_of_eq_None_iff [of tables k]
    by (cases "map_of tables k") auto
  then show ?thesis by auto
qed

lemma set_indexes_ok:
  assumes "set ks \<subseteq> fst ` set dbt"
  shows "\<exists>dbt'. set_indexes ord i dbt (map (\<lambda>k. (k, hidx k)) ks) = Inr dbt' \<and>
           map fst dbt' = map fst dbt \<and>
           (\<forall>k. map_of dbt' k =
              (if k \<in> set ks
               then map_option
                      (\<lambda>t. t\<lparr>tb_Indexes := make_indexes (ord (RangeIndex i k)) (hidx k)\<rparr>)
                      (map_of dbt k)
               else map_of dbt k))"
  using assms
proof (induction ks arbitrary: dbt)
  case Nil
  then show ?case by simp
next
  case (Cons a ks)
  from Cons.prems have a: "a \<in> fst ` set dbt" and ks: "set ks \<subseteq> fst ` set dbt" by auto
  from a obtain t where t: "map_of dbt a = Some t"
    by (metis map_of_eq_None_iff not_None_eq)
  let ?t' = "t\<lparr>tb_Indexes := make_indexes (ord (RangeIndex i a)) (hidx a)\<rparr>"
  let ?dbt1 = "AList.update a ?t' dbt"
  from a have keys1: "map fst ?dbt1 = map fst dbt"
    by (simp add: update_keys)
  then have "fst ` set ?dbt1 = fst ` set dbt"
    by (metis set_map)
  with ks have "set ks \<subseteq> fst ` set ?dbt1" by simp
  from Cons.IH [OF this] obtain dbt' where
    r: "set_indexes ord i ?dbt1 (map (\<lambda>k. (k, hidx k)) ks) = Inr dbt'"
    and keys: "map fst dbt' = map fst ?dbt1"
    and m: "\<And>k. map_of dbt' k =
              (if k \<in> set ks
               then map_option
                      (\<lambda>t. t\<lparr>tb_Indexes := make_indexes (ord (RangeIndex i k)) (hidx k)\<rparr>)
                      (map_of ?dbt1 k)
               else map_of ?dbt1 k)"
    by blast
  have 1: "set_indexes ord i dbt (map (\<lambda>k. (k, hidx k)) (a # ks)) = Inr dbt'"
    using t r by simp
  have 2: "map fst dbt' = map fst dbt"
    using keys keys1 by simp
  have 3: "map_of dbt' k =
              (if k \<in> set (a # ks)
               then map_option
                      (\<lambda>t. t\<lparr>tb_Indexes := make_indexes (ord (RangeIndex i k)) (hidx k)\<rparr>)
                      (map_of dbt k)
               else map_of dbt k)" for k
  proof (cases "k = a")
    case True
    with m [of a] t show ?thesis by (simp add: update_conv')
  next
    case False
    with m [of k] show ?thesis by (simp add: update_conv')
  qed
  from 1 2 3 show ?case by blast
qed

lemma set_indexes_panic:
  assumes "\<not> set ks \<subseteq> fst ` set dbt"
  shows "set_indexes ord i dbt (map (\<lambda>k. (k, hidx k)) ks) = Inl (Panic NilPointerDereference)"
  using assms
proof (induction ks arbitrary: dbt)
  case Nil
  then show ?case by simp
next
  case (Cons a ks)
  show ?case
  proof (cases "map_of dbt a")
    case None
    then show ?thesis by simp
  next
    case (Some t)
    then have a: "a \<in> fst ` set dbt"
      by (metis map_of_eq_None_iff option.distinct(1))
    let ?dbt1 = "AList.update a
                   (t\<lparr>tb_Indexes := make_indexes (ord (RangeIndex i a)) (hidx a)\<rparr>) dbt"
    from a have "map fst ?dbt1 = map fst dbt"
      by (simp add: update_keys)
    then have "fst ` set ?dbt1 = fst ` set dbt"
      by (metis set_map)
    with Cons.prems a have "\<not> set ks \<subseteq> fst ` set ?dbt1" by auto
    from Cons.IH [OF this] Some show ?thesis by simp
  qed
qed

lemma valid_orderD: "valid_order ord \<Longrightarrow> mset (ord site ks) = mset ks"
  by (simp add: valid_order_def)

lemma schema_tables_view:
  assumes "valid_order ord"
  shows "map_sum id (\<lambda>ts. image_mset table_view (mset ts)) (schema_tables ord i tables idx)
           = (if fst ` set idx \<subseteq> fst ` set tables then Inr (canon_tables tables idx)
              else Inl (Panic NilPointerDereference))"
proof -
  let ?v1 = "ord (RangeTables i)" and ?v2 = "ord (RangeIndexes i)" and ?v4 = "ord (RangeDbtables i)"
  let ?dbt0 = "make_dbtables ?v1 tables"
  let ?ks2 = "?v2 (map fst idx)"
  let ?hidx = "\<lambda>k. the (map_of idx k)"
  have s1: "set (?v1 (map fst tables)) = set (map fst tables)"
    using valid_orderD [OF assms, of "RangeTables i" "map fst tables"] by (rule mset_eq_setD)
  have s2: "set ?ks2 = set (map fst idx)"
    using valid_orderD [OF assms, of "RangeIndexes i" "map fst idx"] by (rule mset_eq_setD)
  have keys0: "fst ` set ?dbt0 = fst ` set tables"
    using make_dbtables_keys [of ?v1 tables] s1 by simp
  have rest: "range_map ?v2 idx = map (\<lambda>k. (k, ?hidx k)) ?ks2"
    by (rule range_map_valid) (simp add: s2)
  show ?thesis
  proof (cases "fst ` set idx \<subseteq> fst ` set tables")
    case False
    with s2 keys0 have "\<not> set ?ks2 \<subseteq> fst ` set ?dbt0" by simp
    then have "set_indexes ord i ?dbt0 (map (\<lambda>k. (k, ?hidx k)) ?ks2)
                 = Inl (Panic NilPointerDereference)"
      by (rule set_indexes_panic)
    with False show ?thesis
      by (simp add: schema_tables_def rest)
  next
    case True
    with s2 keys0 have "set ?ks2 \<subseteq> fst ` set ?dbt0" by simp
    from set_indexes_ok [OF this, of ord i ?hidx] obtain dbt' where
      r: "set_indexes ord i ?dbt0 (map (\<lambda>k. (k, ?hidx k)) ?ks2) = Inr dbt'"
      and keys: "map fst dbt' = map fst ?dbt0"
      and m: "\<And>k. map_of dbt' k =
              (if k \<in> set ?ks2
               then map_option
                      (\<lambda>t. t\<lparr>tb_Indexes := make_indexes (ord (RangeIndex i k)) (?hidx k)\<rparr>)
                      (map_of ?dbt0 k)
               else map_of ?dbt0 k)"
      by blast
    have s4: "mset (?v4 (map fst dbt')) = mset (map fst dbt')"
      using assms by (rule valid_orderD)
    then have "set (?v4 (map fst dbt')) \<subseteq> set (map fst dbt')"
      using mset_eq_setD by blast
    then have r4: "range_map ?v4 dbt' = map (\<lambda>k. (k, the (map_of dbt' k))) (?v4 (map fst dbt'))"
      by (rule range_map_valid)
    have ts: "schema_tables ord i tables idx
                = Inr (map (\<lambda>k. the (map_of dbt' k)) (?v4 (map fst dbt')))"
      by (simp add: schema_tables_def rest r foldl_snoc_snd r4 comp_def)
    have "mset (map fst ?dbt0) = mset_set (fst ` set tables)"
      using make_dbtables_distinct [of ?v1 tables] keys0
      by (metis mset_set_set set_map)
    with keys have keys': "mset (map fst dbt') = mset_set (fst ` set tables)" by simp
    have view: "table_view (the (map_of dbt' k))
                  = (k, the (map_of tables k),
                     (case map_of idx k of None \<Rightarrow> {#} | Some index \<Rightarrow> canon_indexes index))"
      if "k \<in> fst ` set tables" for k
    proof -
      from that obtain cols where cols: "map_of tables k = Some cols"
        by (metis map_of_eq_None_iff not_None_eq)
      have d0: "map_of ?dbt0 k = Some \<lparr> tb_Name = k, tb_Columns = cols, tb_Indexes = [] \<rparr>"
        using make_dbtables_map_of [of ?v1 tables k] s1 cols by simp
      show ?thesis
      proof (cases "map_of idx k")
        case None
        then have "k \<notin> set ?ks2"
          by (simp add: s2 map_of_eq_None_iff)
        with m [of k] d0 cols None show ?thesis
          by (simp add: table_view_def)
      next
        case (Some index)
        then have "k \<in> set ?ks2"
          by (metis s2 map_of_eq_None_iff option.distinct(1) set_map)
        moreover have "mset (make_indexes (ord (RangeIndex i k)) index) = canon_indexes index"
          using valid_orderD [OF assms, of "RangeIndex i k" "map fst index"]
          by (rule mset_make_indexes)
        ultimately show ?thesis
          using m [of k] d0 cols Some by (simp add: table_view_def)
      qed
    qed
    have "image_mset table_view (mset (map (\<lambda>k. the (map_of dbt' k)) (?v4 (map fst dbt'))))
            = image_mset (\<lambda>k. table_view (the (map_of dbt' k))) (mset (?v4 (map fst dbt')))"
      by (simp add: image_mset.compositionality comp_def)
    also have "\<dots> = image_mset (\<lambda>k. table_view (the (map_of dbt' k))) (mset_set (fst ` set tables))"
      by (simp only: s4 keys')
    also have "\<dots> = canon_tables tables idx"
      unfolding canon_tables_def
      by (rule image_mset_cong) (simp add: view)
    finally show ?thesis
      using True by (simp add: ts)
  qed
qed

lemma build_schemas_names:
  "build_schemas ord st enums ix i names = Inr ss \<Longrightarrow> map sc_Name ss = names"
proof (induction names arbitrary: i ss)
  case Nil
  then show ?case by simp
next
  case (Cons schema rest)
  from Cons.prems obtain ts ss' where
    "build_schemas ord st enums ix (Suc i) rest = Inr ss'"
    and "ss = \<lparr> sc_Name = schema, sc_Tables = ts, sc_Enums = slice_at enums schema \<rparr> # ss'"
    by (auto split: sum.splits)
  with Cons.IH [of "Suc i" ss'] show ?case by simp
qed

lemma build_schemas_view:
  assumes "valid_order ord1" and "valid_order ord2"
  shows "map_sum id (map schema_view) (build_schemas ord1 st enums ix i names)
           = map_sum id (map schema_view) (build_schemas ord2 st enums ix i names)"
proof (induction names arbitrary: i)
  case Nil
  show ?case by simp
next
  case (Cons schema rest)
  let ?T = "slice_at st schema" and ?I = "slice_at ix schema"
  have tv: "map_sum id (\<lambda>ts. image_mset table_view (mset ts)) (schema_tables ord1 i ?T ?I)
          = map_sum id (\<lambda>ts. image_mset table_view (mset ts)) (schema_tables ord2 i ?T ?I)"
    by (simp only: schema_tables_view [OF assms(1)] schema_tables_view [OF assms(2)])
  note ih = Cons.IH [of "Suc i"]
  show ?case
  proof (cases "schema_tables ord1 i ?T ?I")
    case (Inl p)
    with tv have "schema_tables ord2 i ?T ?I = Inl p"
      by (cases "schema_tables ord2 i ?T ?I") simp_all
    with Inl show ?thesis by simp
  next
    case ts1: (Inr ts1)
    with tv obtain ts2 where ts2: "schema_tables ord2 i ?T ?I = Inr ts2"
      and tv': "image_mset table_view (mset ts1) = image_mset table_view (mset ts2)"
      by (cases "schema_tables ord2 i ?T ?I") simp_all
    show ?thesis
    proof (cases "build_schemas ord1 st enums ix (Suc i) rest")
      case (Inl p)
      with ih have "build_schemas ord2 st enums ix (Suc i) rest = Inl p"
        by (cases "build_schemas ord2 st enums ix (Suc i) rest") simp_all
      with Inl ts1 ts2 show ?thesis by simp
    next
      case ss1: (Inr ss1)
      with ih obtain ss2 where ss2: "build_schemas ord2 st enums ix (Suc i) rest = Inr ss2"
        and sv: "map schema_view ss1 = map schema_view ss2"
        by (cases "build_schemas ord2 st enums ix (Suc i) rest") simp_all
      have "schema_view \<lparr> sc_Name = schema, sc_Tables = ts1, sc_Enums = slice_at enums schema \<rparr>
              = schema_view \<lparr> sc_Name = schema, sc_Tables = ts2, sc_Enums = slice_at enums schema \<rparr>"
        using tv' by (simp add: schema_view_def)
      with ts1 ts2 ss1 ss2 sv show ?thesis
        by simp
    qed
  qed
qed

lemma valid_order_in_order: "valid_order in_order"
  by (simp add: valid_order_def in_order_def)

lemma valid_order_dbtables_reversed: "valid_order dbtables_reversed"
  by (simp add: valid_order_def dbtables_reversed_def split: range_site.splits)

text \<open>
  C2, as the code has it. For fixed answers of the connection, two runs of \<^verbatim>\<open>parse\<close>,
  whatever order each of their map iterations takes, end in the same failure or return
  models with the same view: the schemas in the order of \<^verbatim>\<open>schemaNames\<close>, each with its
  enums in the same order and the same tables, each table with its columns in the same
  order and the same indexes, each index with its columns in the same order. Only the
  order of the tables of a schema and of the indexes of a table is left open.
\<close>

theorem parse_order_independent:
  assumes "valid_order ord1" and "valid_order ord2"
  shows "map_sum id info_view (parse ord1 d schemaNames filterTables)
           = map_sum id info_view (parse ord2 d schemaNames filterTables) \<and>
         (\<forall>m. parse ord1 d schemaNames filterTables = Inr m \<longrightarrow>
              map sc_Name (Schemas m) = schemaNames)"
proof
  show "map_sum id info_view (parse ord1 d schemaNames filterTables)
           = map_sum id info_view (parse ord2 d schemaNames filterTables)"
  proof (cases "load_schemas d schemaNames filterTables")
    case (Inl p)
    then show ?thesis by (simp add: parse_stages)
  next
    case st: (Inr st)
    show ?thesis
    proof (cases "queryEnums d")
      case (Inl p)
      with st show ?thesis by (simp add: parse_stages)
    next
      case enums: (Inr enums)
      show ?thesis
      proof (cases "queryIndexes d")
        case (Inl p)
        with st enums show ?thesis by (simp add: parse_stages)
      next
        case (Inr irs)
        have "map_sum id info_view (map_sum id (\<lambda>ss. \<lparr> Schemas = ss \<rparr>) x)
                = map_sum id (map schema_view) x" for x :: "failure + Schema list"
          by (cases x) (simp_all add: info_view_def)
        with st enums Inr build_schemas_view [OF assms] show ?thesis
          by (simp add: parse_stages)
      qed
    qed
  qed
  show "\<forall>m. parse ord1 d schemaNames filterTables = Inr m \<longrightarrow>
              map sc_Name (Schemas m) = schemaNames"
    using parse_Inr build_schemas_names by blast
qed

theorem parse_order_independent_witness:
  "valid_order in_order \<and> valid_order dbtables_reversed \<and>
   map_sum id info_view (parse in_order sample_db [''public''] all_tables)
     = map_sum id info_view (parse dbtables_reversed sample_db [''public''] all_tables) \<and>
   map sc_Name
     (Schemas \<lparr> Schemas =
       [\<lparr> sc_Name = ''public'',
          sc_Tables =
            [\<lparr> tb_Name = ''a'', tb_Columns = [text_Column ''public'' ''a'' ''id''],
               tb_Indexes = [] \<rparr>,
             \<lparr> tb_Name = ''b'',
               tb_Columns = [text_Column ''public'' ''b'' ''id'', text_Column ''public'' ''b'' ''aid''],
               tb_Indexes = [] \<rparr>],
          sc_Enums = [] \<rparr>] \<rparr>) = [''public'']"
proof -
  have m: "parse in_order sample_db [''public''] all_tables =
     Inr \<lparr> Schemas =
       [\<lparr> sc_Name = ''public'',
          sc_Tables =
            [\<lparr> tb_Name = ''a'', tb_Columns = [text_Column ''public'' ''a'' ''id''],
               tb_Indexes = [] \<rparr>,
             \<lparr> tb_Name = ''b'',
               tb_Columns = [text_Column ''public'' ''b'' ''id'', text_Column ''public'' ''b'' ''aid''],
               tb_Indexes = [] \<rparr>],
          sc_Enums = [] \<rparr>] \<rparr>"
    by code_simp
  from parse_order_independent
         [OF valid_order_in_order valid_order_dbtables_reversed, of sample_db "[''public'']" all_tables]
       m valid_order_in_order valid_order_dbtables_reversed
  show ?thesis by blast
qed

text \<open>
  C2 as stated fails: the tables of a schema are appended while ranging over the map
  \<^verbatim>\<open>dbtables\<close>, so two runs on the same answers that visit its keys in different orders
  return the tables \<^verbatim>\<open>a\<close> and \<^verbatim>\<open>b\<close> in different orders.
\<close>

theorem tables_order_varies:
  "valid_order in_order \<and> valid_order dbtables_reversed \<and>
   parse in_order sample_db [''public''] all_tables =
   Inr \<lparr> Schemas =
     [\<lparr> sc_Name = ''public'',
        sc_Tables =
          [\<lparr> tb_Name = ''a'', tb_Columns = [text_Column ''public'' ''a'' ''id''],
             tb_Indexes = [] \<rparr>,
           \<lparr> tb_Name = ''b'',
             tb_Columns = [text_Column ''public'' ''b'' ''id'', text_Column ''public'' ''b'' ''aid''],
             tb_Indexes = [] \<rparr>],
        sc_Enums = [] \<rparr>] \<rparr> \<and>
   parse dbtables_reversed sample_db [''public''] all_tables =
   Inr \<lparr> Schemas =
     [\<lparr> sc_Name = ''public'',
        sc_Tables =
          [\<lparr> tb_Name = ''b'',
             tb_Columns = [text_Column ''public'' ''b'' ''id'', text_Column ''public'' ''b'' ''aid''],
             tb_Indexes = [] \<rparr>,
           \<lparr> tb_Name = ''a'', tb_Columns = [text_Column ''public'' ''a'' ''id''],
             tb_Indexes = [] \<rparr>],
        sc_Enums = [] \<rparr>] \<rparr> \<and>
   parse in_order sample_db [''public''] all_tables
     \<noteq> parse dbtables_reversed sample_db [''public''] all_tables"
proof -
  have 1: "parse in_order sample_db [''public''] all_tables =
   Inr \<lparr> Schemas =
     [\<lparr> sc_Name = ''public'',
        sc_Tables =
          [\<lparr> tb_Name = ''a'', tb_Columns = [text_Column ''public'' ''a'' ''id''],
             tb_Indexes = [] \<rparr>,
           \<lparr> tb_Name = ''b'',
             tb_Columns = [text_Column ''public'' ''b'' ''id'', text_Column ''public'' ''b'' ''aid''],
             tb_Indexes = [] \<rparr>],
        sc_Enums = [] \<rparr>] \<rparr>"
    by code_simp
  have 2: "parse dbtables_reversed sample_db [''public''] all_tables =
   Inr \<lparr> Schemas =
     [\<lparr> sc_Name = ''public'',
        sc_Tables =
          [\<lparr> tb_Name = ''b'',
             tb_Columns = [text_Column ''public'' ''b'' ''id'', text_Column ''public'' ''b'' ''aid''],
             tb_Indexes = [] \<rparr>,
           \<lparr> tb_Name = ''a'', tb_Columns = [text_Column ''public'' ''a'' ''id''],
             tb_Indexes = [] \<rparr>],
        sc_Enums = [] \<rparr>] \<rparr>"
    by code_simp
  have 3: "parse in_order sample_db [''public''] all_tables
     \<noteq> parse dbtables_reversed sample_db [''public''] all_tables"
    unfolding 1 2 by simp
  from 1 2 3 valid_order_in_order valid_order_dbtables_reversed show ?thesis by blast
qed

end
